theory Spec2Isabelle
  imports Complex_Main
begin

section \<open>The vertical-collection component\<close>

text \<open>
  A shallow embedding of \<^verbatim>\<open>addon/components/vertical-collection.ts\<close>: the
  \<^verbatim>\<open>VerticalCollection\<close> Glimmer component that wraps the occlusion engine (the
  Radar), and the module-level function \<^verbatim>\<open>calculateStartingIndex\<close>.

  JavaScript numbers that index into the collection are \<open>int\<close> (the source computes
  \<^verbatim>\<open>totalItems - 1\<close>, which is negative for an empty array); heights and buffer sizes
  are \<open>rat\<close>. An argument that may be \<^verbatim>\<open>undefined\<close> or \<^verbatim>\<open>null\<close> is an \<open>option\<close>.
\<close>

subsection \<open>Imports from the private data-view module\<close>

text \<open>
  \<^verbatim>\<open>objectAt\<close> and \<^verbatim>\<open>keyForItem\<close> are imported from \<^verbatim>\<open>../-private\<close>. The component
  only calls them, so they are parameters of the model: every theorem below holds for
  every pair of such functions. \<open>'a\<close> is the type of the elements of the \<^verbatim>\<open>items\<close> array,
  \<open>'v\<close> the type of what \<^verbatim>\<open>objectAt\<close> returns (an element or \<^verbatim>\<open>undefined\<close>).
\<close>

record ('a, 'v) private_imports =
  objectAt :: "'a list option \<Rightarrow> int \<Rightarrow> 'v"
  keyForItem :: "'v \<Rightarrow> string \<Rightarrow> int \<Rightarrow> string"

subsection \<open>calculateStartingIndex\<close>

text \<open>
  The \<^verbatim>\<open>for\<close> loop of \<^verbatim>\<open>calculateStartingIndex\<close>, from index \<open>i\<close> on:
  \<^verbatim>\<open>
  for (let i = 0; i < totalItems; i++) {
    if (keyForItem(objectAt(items, i), key, i) === idForFirstItem) {
      startingIndex = i;
      break;
    }
  }
  \<close>
  \<^verbatim>\<open>startingIndex\<close> is 0 before the loop and is assigned only at the \<^verbatim>\<open>break\<close>, so a
  loop that runs to the end leaves 0.
\<close>

function startingIndex_loop ::
  "('a, 'v) private_imports \<Rightarrow> 'a list \<Rightarrow> string \<Rightarrow> string \<Rightarrow> int \<Rightarrow> int" where
  "startingIndex_loop P xs idForFirst keyPath i =
     (if i < int (length xs) then
        (if keyForItem P (objectAt P (Some xs) i) keyPath i = idForFirst then i
         else startingIndex_loop P xs idForFirst keyPath (i + 1))
      else 0)"
  by pat_completeness auto
termination
  by (relation "measure (\<lambda>(P, xs, idForFirst, keyPath, i). nat (int (length xs) - i))") auto

definition calculateStartingIndex ::
  "('a, 'v) private_imports \<Rightarrow> 'a list \<Rightarrow> string option \<Rightarrow> string \<Rightarrow> bool \<Rightarrow> int" where
  "calculateStartingIndex P xs idForFirst keyPath fromLast =
     (let totalItems = int (length xs) in
      case idForFirst of
        Some ident \<Rightarrow> startingIndex_loop P xs ident keyPath 0
      | None \<Rightarrow> (if fromLast then totalItems - 1 else 0))"

text \<open>
  A concrete pair of helpers for evaluating the model: plain array indexing
  (\<open>None\<close> is \<^verbatim>\<open>undefined\<close>), and keys that are the items themselves, with the
  \<^verbatim>\<open>@index\<close> key path giving a positional key.
\<close>

definition array_objectAt :: "string list option \<Rightarrow> int \<Rightarrow> string option" where
  "array_objectAt arr i =
     (case arr of
        None \<Rightarrow> None
      | Some xs \<Rightarrow> (if 0 \<le> i \<and> i < int (length xs) then Some (xs ! nat i) else None))"

definition sample_keyForItem :: "string option \<Rightarrow> string \<Rightarrow> int \<Rightarrow> string" where
  "sample_keyForItem item keyPath i =
     (if keyPath = ''@index'' then replicate (nat i) (CHR ''i'')
      else (case item of Some s \<Rightarrow> s | None \<Rightarrow> ''undefined''))"

definition sample_imports :: "(string, string option) private_imports" where
  "sample_imports = \<lparr>objectAt = array_objectAt, keyForItem = sample_keyForItem\<rparr>"

subsection \<open>The static occlusion calculator\<close>

text \<open>
  Modelled from the spec: the \<^verbatim>\<open>StaticRadar\<close> class (imported from \<^verbatim>\<open>../-private\<close>) is
  not among the sources. The definitions follow section 4.2 of the specification word for
  word: inputs \<^verbatim>\<open>scrollOffset\<close>, \<^verbatim>\<open>viewportHeight\<close>, \<^verbatim>\<open>estimateHeight\<close>, \<^verbatim>\<open>bufferSize\<close>,
  \<^verbatim>\<open>totalItems\<close>.
\<close>

record static_ranges =
  totalContentHeight :: rat
  firstVisible :: int
  lastVisible :: int
  renderStart :: int
  renderEnd :: int
  beforeSpacer :: rat
  afterSpacer :: rat

text \<open>
  Modelled from the spec: the clamping of \<^verbatim>\<open>firstVisible\<close> and \<^verbatim>\<open>lastVisible\<close> to
  \<^verbatim>\<open>[0, totalItems-1]\<close> in \<^verbatim>\<open>StaticRadar\<close>, which is not among the sources.
\<close>

definition clamp_index :: "int \<Rightarrow> int \<Rightarrow> int" where
  "clamp_index totalItems i = max 0 (min (totalItems - 1) i)"

text \<open>
  Modelled from the spec: the buffer of \<^verbatim>\<open>StaticRadar\<close> in item units,
  \<^verbatim>\<open>ceil(bufferSize * viewportHeight / estimateHeight)\<close>.
\<close>

definition bufferItems :: "rat \<Rightarrow> rat \<Rightarrow> rat \<Rightarrow> int" where
  "bufferItems bufSize viewportHeight estHeight = ceiling (bufSize * viewportHeight / estHeight)"

text \<open>
  Modelled from the spec: the range computation of \<^verbatim>\<open>StaticRadar\<close>, the six formulas of
  section 4.2 in their order.
\<close>

definition static_occlusion :: "rat \<Rightarrow> rat \<Rightarrow> rat \<Rightarrow> rat \<Rightarrow> int \<Rightarrow> static_ranges" where
  "static_occlusion scrollOffset viewportHeight estHeight bufSize totalItems =
     (let first = clamp_index totalItems (floor (scrollOffset / estHeight));
          last = clamp_index totalItems (floor ((scrollOffset + viewportHeight) / estHeight));
          buf = bufferItems bufSize viewportHeight estHeight;
          rStart = max 0 (first - buf);
          rEnd = min totalItems (last + buf + 1)
      in \<lparr>totalContentHeight = of_int totalItems * estHeight,
          firstVisible = first,
          lastVisible = last,
          renderStart = rStart,
          renderEnd = rEnd,
          beforeSpacer = of_int rStart * estHeight,
          afterSpacer = of_int (totalItems - rEnd) * estHeight\<rparr>)"

subsection \<open>Arguments of the component\<close>

text \<open>
  The four edge actions. The component receives an action as a string and uses it as a
  property name (\<^verbatim>\<open>this._hasAction[action]\<close>, \<^verbatim>\<open>this.args[action]\<close>); the radar sends
  only these four names (\<^verbatim>\<open>firstReached\<close>, \<^verbatim>\<open>lastReached\<close>, \<^verbatim>\<open>firstVisibleChanged\<close>,
  \<^verbatim>\<open>lastVisibleChanged\<close>), which are also the four properties of \<^verbatim>\<open>_hasAction\<close>.
\<close>

datatype action_name = LastReached | FirstReached | LastVisibleChanged | FirstVisibleChanged

text \<open>
  \<^verbatim>\<open>IVerticalCollectionArgs\<close>. Every argument may be missing at run time; \<open>'h\<close> is the
  type of handler functions.
\<close>

record ('a, 'h) IVerticalCollectionArgs =
  arg_estimateHeight :: "rat option"
  arg_items :: "'a list option"
  arg_staticHeight :: "bool option"
  arg_containerSelector :: "string option"
  arg_bufferSize :: "rat option"
  arg_idForFirstItem :: "string option"
  arg_renderFromLast :: "bool option"
  arg_renderAll :: "bool option"
  arg_lastReached :: "'h option"
  arg_firstReached :: "'h option"
  arg_lastVisibleChanged :: "'h option"
  arg_firstVisibleChanged :: "'h option"
  arg_initialRenderCount :: "int option"

text \<open>\<^verbatim>\<open>this.args[action]\<close> for one of the four action names.\<close>

fun args_lookup :: "('a, 'h) IVerticalCollectionArgs \<Rightarrow> action_name \<Rightarrow> 'h option" where
  "args_lookup a LastReached = arg_lastReached a"
| "args_lookup a FirstReached = arg_firstReached a"
| "args_lookup a LastVisibleChanged = arg_lastVisibleChanged a"
| "args_lookup a FirstVisibleChanged = arg_firstVisibleChanged a"

text \<open>The getters, each \<^verbatim>\<open>this.args.x ?? default\<close>.\<close>

definition estimateHeight :: "('a, 'h) IVerticalCollectionArgs \<Rightarrow> rat option" where
  "estimateHeight a = arg_estimateHeight a"

definition items :: "('a, 'h) IVerticalCollectionArgs \<Rightarrow> 'a list option" where
  "items a = arg_items a"

definition staticHeight :: "('a, 'h) IVerticalCollectionArgs \<Rightarrow> bool" where
  "staticHeight a = (case arg_staticHeight a of Some b \<Rightarrow> b | None \<Rightarrow> False)"

definition containerSelector :: "('a, 'h) IVerticalCollectionArgs \<Rightarrow> string" where
  "containerSelector a = (case arg_containerSelector a of Some sel \<Rightarrow> sel | None \<Rightarrow> ''*'')"

definition bufferSize :: "('a, 'h) IVerticalCollectionArgs \<Rightarrow> rat" where
  "bufferSize a = (case arg_bufferSize a of Some b \<Rightarrow> b | None \<Rightarrow> 1)"

definition idForFirstItem :: "('a, 'h) IVerticalCollectionArgs \<Rightarrow> string option" where
  "idForFirstItem a = arg_idForFirstItem a"

definition renderFromLast :: "('a, 'h) IVerticalCollectionArgs \<Rightarrow> bool" where
  "renderFromLast a = (case arg_renderFromLast a of Some b \<Rightarrow> b | None \<Rightarrow> False)"

definition renderAll :: "('a, 'h) IVerticalCollectionArgs \<Rightarrow> bool" where
  "renderAll a = (case arg_renderAll a of Some b \<Rightarrow> b | None \<Rightarrow> False)"

text \<open>
  \<^verbatim>\<open>this.items?.length === 0\<close>: on \<^verbatim>\<open>null\<close> the optional chain gives \<^verbatim>\<open>undefined\<close>,
  which is not \<^verbatim>\<open>=== 0\<close>.
\<close>

definition isEmpty :: "('a, 'h) IVerticalCollectionArgs \<Rightarrow> bool" where
  "isEmpty a = (case items a of None \<Rightarrow> False | Some xs \<Rightarrow> int (length xs) = 0)"

definition shouldYieldToInverse :: "('a, 'h) IVerticalCollectionArgs \<Rightarrow> bool" where
  "shouldYieldToInverse a = isEmpty a"

subsection \<open>The collaborators: token, radar, window timers, scheduler\<close>

text \<open>
  \<^verbatim>\<open>Token\<close> comes from the package \<^verbatim>\<open>ember-raf-scheduler\<close>. The component creates one
  token, hands the same object to the radar and to every \<^verbatim>\<open>scheduler.schedule\<close> call, and
  cancels it on teardown.
\<close>

record Token =
  cancelled :: bool

definition cancel :: "Token \<Rightarrow> Token" where
  "cancel t = t\<lparr>cancelled := True\<rparr>"

datatype radar_class = StaticRadar | DynamicRadar

text \<open>
  Modelled from the spec: the classes \<^verbatim>\<open>Radar\<close>, \<^verbatim>\<open>StaticRadar\<close> and \<^verbatim>\<open>DynamicRadar\<close>
  (imported from \<^verbatim>\<open>../-private\<close>) are not among the sources. The record holds the class
  chosen by the component, the options the component passes to the constructor, the two
  callbacks the component and its debug decorator install (\<^verbatim>\<open>sendAction\<close>,
  \<^verbatim>\<open>_debugDidUpdate\<close>; \<open>True\<close> when installed), and the lifecycle of section 4.5 of the
  specification: \<open>idle\<close>, then \<open>started\<close>, then \<open>destroyed\<close>. \<open>r_startCalls\<close> counts the runs
  of \<^verbatim>\<open>start()\<close>, \<open>r_forcedUpdates\<close> the calls of \<^verbatim>\<open>scheduleUpdate(true)\<close>.
\<close>

record 'a Radar =
  r_class :: radar_class
  r_bufferSize :: rat
  r_containerSelector :: string
  r_estimateHeight :: "rat option"
  r_initialRenderCount :: "int option"
  r_items :: "'a list"
  r_key :: string
  r_renderAll :: bool
  r_renderFromLast :: bool
  r_shouldRecycle :: bool
  r_startingIndex :: int
  r_occlusionTagName :: string
  r_sendAction :: bool
  r_debugDidUpdate :: bool
  r_started :: bool
  r_startCalls :: nat
  r_destroyed :: bool
  r_forcedUpdates :: nat

datatype assertion = BufferSizeNotPositive

text \<open>
  Modelled from the spec: \<^verbatim>\<open>Radar.start\<close>, not among the sources. Section 7 of the
  specification: an invalid \<^verbatim>\<open>bufferSize <= 0\<close> is reported by an assertion-style
  failure at \<^verbatim>\<open>start()\<close>. The resolution of the scroll container and the measurements
  need a DOM and are left out.
\<close>

definition radar_start :: "'a Radar \<Rightarrow> assertion + 'a Radar" where
  "radar_start r =
     (if r_bufferSize r \<le> 0 then Inl BufferSizeNotPositive
      else Inr (r\<lparr>r_started := True\<rparr>))"

text \<open>
  Modelled from the spec: \<^verbatim>\<open>Radar.destroy\<close>, not among the sources; the radar becomes
  \<open>destroyed\<close>, its terminal state.
\<close>

definition radar_destroy :: "'a Radar \<Rightarrow> 'a Radar" where
  "radar_destroy r = r\<lparr>r_destroyed := True\<rparr>"

text \<open>
  Modelled from the spec: \<^verbatim>\<open>Radar.scheduleUpdate\<close>, not among the sources; only the
  request is counted, the update itself belongs to the radar.
\<close>

definition radar_scheduleUpdate :: "'a Radar \<Rightarrow> 'a Radar" where
  "radar_scheduleUpdate r = r\<lparr>r_forcedUpdates := Suc (r_forcedUpdates r)\<rparr>"

text \<open>The one job the component hands to the scheduler: \<^verbatim>\<open>() => { this._radar.start(); }\<close>.\<close>

datatype job = RadarStartJob

text \<open>\<^verbatim>\<open>_hasAction\<close> when it is not \<^verbatim>\<open>null\<close>: an object with four boolean properties.\<close>

record hasAction_object =
  ha_lastReached :: bool
  ha_firstReached :: bool
  ha_lastVisibleChanged :: bool
  ha_firstVisibleChanged :: bool

fun hasAction_lookup :: "hasAction_object \<Rightarrow> action_name \<Rightarrow> bool" where
  "hasAction_lookup h LastReached = ha_lastReached h"
| "hasAction_lookup h FirstReached = ha_firstReached h"
| "hasAction_lookup h LastVisibleChanged = ha_lastVisibleChanged h"
| "hasAction_lookup h FirstVisibleChanged = ha_firstVisibleChanged h"

subsection \<open>The component and its environment\<close>

text \<open>
  One call of a handler, \<^verbatim>\<open>_action(item, index, key)\<close>: the action whose handler it is,
  the handler, and the three arguments it receives.
\<close>

type_synonym ('v, 'h) handler_call = "action_name \<times> 'h \<times> 'v \<times> int \<times> string"

text \<open>
  The fields of \<^verbatim>\<open>VerticalCollection\<close>, followed by the part of the environment the
  component acts on:
  \<^item> \<open>timers\<close>: the handles of the armed \<^verbatim>\<open>window.setTimeout\<close> timers, and
    \<open>handles_issued\<close>, the number of handles issued so far (a handle is an integer greater
    than zero);
  \<^item> \<open>queue\<close>: the jobs given to \<^verbatim>\<open>scheduler.schedule\<close> with the component's token and
    not yet flushed;
  \<^item> \<open>calls\<close>: the handler calls made so far, one list per run of the timer callback;
  \<^item> \<open>failures\<close>: the assertion failures raised so far.
  Handlers are code of the consumer: a call is recorded; it returns or throws.
\<close>

record ('a, 'v, 'h) VerticalCollection =
  args :: "('a, 'h) IVerticalCollectionArgs"
  token :: Token
  radar :: "'a Radar"
  scheduledActions :: "(action_name \<times> int) list"
  hasAction :: "hasAction_object option"
  prevItemsLength :: int
  prevFirstKey :: "string option"
  prevLastKey :: "string option"
  nextSendActions :: "nat option"
  key :: string
  shouldRecycle :: bool
  occlusionTagName :: string
  timers :: "nat list"
  handles_issued :: nat
  queue :: "(string \<times> job) list"
  calls :: "('v, 'h) handler_call list list"
  failures :: "assertion list"

text \<open>
  \<^verbatim>\<open>get virtualComponents()\<close>: the writes to the radar. The value returned,
  \<^verbatim>\<open>_radar.virtualComponents\<close>, belongs to the radar and is not modelled.
\<close>

definition virtualComponents ::
  "('a, 'v, 'h) VerticalCollection \<Rightarrow> ('a, 'v, 'h) VerticalCollection" where
  "virtualComponents s =
     (let its = items (args s);
          r1 = (radar s)\<lparr>r_items := (case its of None \<Rightarrow> [] | Some xs \<Rightarrow> xs)\<rparr>;
          r2 = r1\<lparr>r_estimateHeight := estimateHeight (args s)\<rparr>;
          r3 = r2\<lparr>r_renderAll := renderAll (args s)\<rparr>;
          r4 = r3\<lparr>r_bufferSize := bufferSize (args s)\<rparr>
      in s\<lparr>radar := radar_scheduleUpdate r4\<rparr>)"

text \<open>\<^verbatim>\<open>schedule(queueName, job)\<close>: \<^verbatim>\<open>scheduler.schedule(queueName, job, this.token)\<close>.\<close>

definition schedule ::
  "string \<Rightarrow> job \<Rightarrow> ('a, 'v, 'h) VerticalCollection \<Rightarrow> ('a, 'v, 'h) VerticalCollection" where
  "schedule queueName j s = s\<lparr>queue := queue s @ [(queueName, j)]\<rparr>"

text \<open>
  The body of the \<^verbatim>\<open>forEach\<close> in the timer callback, for one scheduled pair: the handler
  is called only when \<^verbatim>\<open>this.args[action]\<close> is a function.
\<close>

definition dispatch ::
  "('a, 'v) private_imports \<Rightarrow> 'a list option \<Rightarrow> string \<Rightarrow> ('a, 'h) IVerticalCollectionArgs
   \<Rightarrow> action_name \<times> int \<Rightarrow> ('v, 'h) handler_call list" where
  "dispatch P its keyPath a scheduled =
     (case scheduled of (act, index) \<Rightarrow>
        (let item = objectAt P its index;
             k = keyForItem P item keyPath index
         in case args_lookup a act of
              Some f \<Rightarrow> [(act, f, item, index, k)]
            | None \<Rightarrow> []))"

text \<open>
  A handler is code of the consumer. It receives \<open>(item, index, key)\<close> and no reference to
  the component, so all it can do to the callback that calls it is return or throw. The
  behaviour of the handlers is a parameter of the model: \<open>H f item index k\<close> holds when
  the call \<open>f(item, index, k)\<close> throws.
\<close>

type_synonym ('v, 'h) handler_behaviour = "'h \<Rightarrow> 'v \<Rightarrow> int \<Rightarrow> string \<Rightarrow> bool"

definition handler_throws :: "('v, 'h) handler_behaviour \<Rightarrow> ('v, 'h) handler_call \<Rightarrow> bool" where
  "handler_throws H c = (case c of (act, f, item, index, k) \<Rightarrow> H f item index k)"

text \<open>
  \<^verbatim>\<open>this._scheduledActions.forEach(...)\<close>: the body runs for each scheduled pair in
  order. There is no \<^verbatim>\<open>try\<close> around the handler call, so a call that throws ends the
  \<^verbatim>\<open>forEach\<close>. The result is the list of the calls made (the throwing call is the last
  one) and whether the \<^verbatim>\<open>forEach\<close> was left by an exception.
\<close>

fun forEach_scheduled ::
  "('a, 'v) private_imports \<Rightarrow> ('v, 'h) handler_behaviour \<Rightarrow> 'a list option \<Rightarrow> string
   \<Rightarrow> ('a, 'h) IVerticalCollectionArgs \<Rightarrow> (action_name \<times> int) list
   \<Rightarrow> ('v, 'h) handler_call list \<times> bool" where
  "forEach_scheduled P H its keyPath a [] = ([], False)"
| "forEach_scheduled P H its keyPath a (x # xs) =
     (case dispatch P its keyPath a x of
        [] \<Rightarrow> forEach_scheduled P H its keyPath a xs
      | c # _ \<Rightarrow>
          (if handler_throws H c then ([c], True)
           else (let r = forEach_scheduled P H its keyPath a xs in (c # fst r, snd r))))"

text \<open>
  The callback given to \<^verbatim>\<open>window.setTimeout\<close>. \<^verbatim>\<open>_nextSendActions\<close> is set to \<^verbatim>\<open>null\<close>
  before the \<^verbatim>\<open>forEach\<close>; \<^verbatim>\<open>this._scheduledActions.length = 0\<close> comes after it and is
  skipped when a handler throws: the exception leaves the callback.
\<close>

definition sendActions_callback ::
  "('a, 'v) private_imports \<Rightarrow> ('v, 'h) handler_behaviour \<Rightarrow> ('a, 'v, 'h) VerticalCollection
   \<Rightarrow> ('a, 'v, 'h) VerticalCollection" where
  "sendActions_callback P H s =
     (let s1 = s\<lparr>nextSendActions := None\<rparr>;
          its = items (args s1);
          keyPath = key s1;
          r = forEach_scheduled P H its keyPath (args s1) (scheduledActions s1);
          s2 = s1\<lparr>calls := calls s1 @ [fst r]\<rparr>
      in if snd r then s2 else s2\<lparr>scheduledActions := []\<rparr>)"

text \<open>
  \<^verbatim>\<open>_scheduleSendAction(action, index)\<close>. \<^verbatim>\<open>window.setTimeout\<close> arms a timer and returns
  its handle, the next positive integer.
\<close>

definition scheduleSendAction ::
  "action_name \<Rightarrow> int \<Rightarrow> ('a, 'v, 'h) VerticalCollection \<Rightarrow> ('a, 'v, 'h) VerticalCollection" where
  "scheduleSendAction act index s =
     (let s1 = s\<lparr>scheduledActions := scheduledActions s @ [(act, index)]\<rparr>
      in if nextSendActions s1 = None then
           (let h = Suc (handles_issued s1)
            in s1\<lparr>timers := timers s1 @ [h], handles_issued := h, nextSendActions := Some h\<rparr>)
         else s1)"

definition didInsertMainContainer ::
  "('a, 'v, 'h) VerticalCollection \<Rightarrow> ('a, 'v, 'h) VerticalCollection" where
  "didInsertMainContainer s = schedule ''sync'' RadarStartJob s"

text \<open>
  \<^verbatim>\<open>willDestroyMainContainer()\<close>. The test \<^verbatim>\<open>if (this._nextSendActions)\<close> is a
  truthiness test: it fails on \<^verbatim>\<open>null\<close> and on the number 0.
\<close>

definition clearTimeout ::
  "nat \<Rightarrow> ('a, 'v, 'h) VerticalCollection \<Rightarrow> ('a, 'v, 'h) VerticalCollection" where
  "clearTimeout h s = s\<lparr>timers := removeAll h (timers s)\<rparr>"

definition willDestroyMainContainer ::
  "('a, 'v, 'h) VerticalCollection \<Rightarrow> ('a, 'v, 'h) VerticalCollection" where
  "willDestroyMainContainer s =
     (let s1 = s\<lparr>token := cancel (token s)\<rparr>;
          s2 = s1\<lparr>radar := radar_destroy (radar s1)\<rparr>
      in case nextSendActions s2 of
           None \<Rightarrow> s2
         | Some h \<Rightarrow> (if h \<noteq> 0 then clearTimeout h s2 else s2))"

text \<open>
  The closure the constructor installs as \<^verbatim>\<open>_radar.sendAction\<close>:
  \<^verbatim>\<open>
  (action, index) => {
    if (this._hasAction && this._hasAction[action]) {
      this._scheduleSendAction(action, index);
    }
  }
  \<close>
\<close>

definition sendAction ::
  "action_name \<Rightarrow> int \<Rightarrow> ('a, 'v, 'h) VerticalCollection \<Rightarrow> ('a, 'v, 'h) VerticalCollection" where
  "sendAction act index s =
     (case hasAction s of
        None \<Rightarrow> s
      | Some h \<Rightarrow> (if hasAction_lookup h act then scheduleSendAction act index s else s))"

text \<open>
  The constructor. The class fields \<^verbatim>\<open>key\<close>, \<^verbatim>\<open>shouldRecycle\<close> and
  \<^verbatim>\<open>occlusionTagName\<close> have their initial values when the body runs. \<^verbatim>\<open>this.items || []\<close>
  replaces \<^verbatim>\<open>null\<close> by the empty array (an array, even an empty one, is truthy). The
  environment of a new component has no timer of it, no job and no call.
\<close>

definition constructor ::
  "('a, 'v) private_imports \<Rightarrow> ('a, 'h) IVerticalCollectionArgs \<Rightarrow> ('a, 'v, 'h) VerticalCollection" where
  "constructor P a =
     (let radarClass = (if staticHeight a then StaticRadar else DynamicRadar);
          its = (case items a of None \<Rightarrow> [] | Some xs \<Rightarrow> xs);
          keyPath = ''@identity'';
          startingIndex = calculateStartingIndex P its (idForFirstItem a) keyPath (renderFromLast a);
          rad = \<lparr>r_class = radarClass,
                 r_bufferSize = bufferSize a,
                 r_containerSelector = containerSelector a,
                 r_estimateHeight = estimateHeight a,
                 r_initialRenderCount = arg_initialRenderCount a,
                 r_items = its,
                 r_key = keyPath,
                 r_renderAll = renderAll a,
                 r_renderFromLast = renderFromLast a,
                 r_shouldRecycle = True,
                 r_startingIndex = startingIndex,
                 r_occlusionTagName = ''occluded-content'',
                 r_sendAction = False,
                 r_debugDidUpdate = False,
                 r_started = False,
                 r_startCalls = 0,
                 r_destroyed = False,
                 r_forcedUpdates = 0\<rparr>;
          a1 = (arg_lastReached a \<noteq> None);
          b1 = (arg_firstReached a \<noteq> None);
          c1 = (arg_lastVisibleChanged a \<noteq> None);
          d1 = (arg_firstVisibleChanged a \<noteq> None);
          any = (a1 \<or> b1 \<or> c1 \<or> d1)
      in \<lparr>args = a,
          token = \<lparr>cancelled = False\<rparr>,
          radar = (if any then rad\<lparr>r_sendAction := True\<rparr> else rad),
          scheduledActions = [],
          hasAction =
            (if any then
               Some \<lparr>ha_lastReached = a1, ha_firstReached = b1,
                     ha_lastVisibleChanged = c1, ha_firstVisibleChanged = d1\<rparr>
             else None),
          prevItemsLength = 0,
          prevFirstKey = None,
          prevLastKey = None,
          nextSendActions = None,
          key = keyPath,
          shouldRecycle = True,
          occlusionTagName = ''occluded-content'',
          timers = [],
          handles_issued = 0,
          queue = [],
          calls = [],
          failures = []\<rparr>)"

text \<open>
  The class is exported under the \<^verbatim>\<open>@debug\<close> decorator, whose constructor runs the one
  above and then installs \<^verbatim>\<open>_radar._debugDidUpdate\<close>.
\<close>

definition debug_constructor ::
  "('a, 'v) private_imports \<Rightarrow> ('a, 'h) IVerticalCollectionArgs \<Rightarrow> ('a, 'v, 'h) VerticalCollection" where
  "debug_constructor P a =
     (let s = constructor P a in s\<lparr>radar := (radar s)\<lparr>r_debugDidUpdate := True\<rparr>\<rparr>)"

subsection \<open>What can happen to a component\<close>

text \<open>
  Modelled from the spec: the scheduler of \<^verbatim>\<open>ember-raf-scheduler\<close> and the moments at
  which the radar calls \<^verbatim>\<open>sendAction\<close>. Section 5 of the specification: cancelling
  cancels the pending scheduled phases, and a scheduled job that runs after destruction is
  a no-op; so a job runs only while the token it was scheduled with is not cancelled,
  and a destroyed radar sends no action.
\<close>

definition run_job ::
  "('a, 'v, 'h) VerticalCollection \<Rightarrow> string \<times> job \<Rightarrow> ('a, 'v, 'h) VerticalCollection" where
  "run_job s qj =
     (if cancelled (token s) then s
      else (case snd qj of
              RadarStartJob \<Rightarrow>
                (let r = (radar s)\<lparr>r_startCalls := Suc (r_startCalls (radar s))\<rparr>
                 in case radar_start r of
                      Inl e \<Rightarrow> s\<lparr>radar := r, failures := failures s @ [e]\<rparr>
                    | Inr r' \<Rightarrow> s\<lparr>radar := r'\<rparr>)))"

text \<open>
  Modelled from the spec: a flush of the scheduler runs the queued jobs in order and
  empties the queue.
\<close>

definition flush :: "('a, 'v, 'h) VerticalCollection \<Rightarrow> ('a, 'v, 'h) VerticalCollection" where
  "flush s = (foldl run_job s (queue s))\<lparr>queue := []\<rparr>"

text \<open>
  The events: the host changes the arguments or the tracked \<^verbatim>\<open>key\<close>, the template reads
  \<^verbatim>\<open>virtualComponents\<close>, the two lifecycle actions, the radar calls its \<^verbatim>\<open>sendAction\<close>,
  an armed timer fires (one macrotask), the scheduler flushes its queue. A radar whose
  \<^verbatim>\<open>sendAction\<close> was not installed by the component does not reach the component, and
  (modelled from the spec, as said above) a destroyed radar sends nothing. A timer that is
  not armed, because it fired or was cleared, does not fire.
\<close>

datatype ('a, 'h) event =
    SetArgs "('a, 'h) IVerticalCollectionArgs"
  | SetKey string
  | GetVirtualComponents
  | DidInsertMainContainer
  | WillDestroyMainContainer
  | RadarSendsAction action_name int
  | TimerFires nat
  | SchedulerFlush

fun step ::
  "('a, 'v) private_imports \<Rightarrow> ('v, 'h) handler_behaviour \<Rightarrow> ('a, 'v, 'h) VerticalCollection
   \<Rightarrow> ('a, 'h) event \<Rightarrow> ('a, 'v, 'h) VerticalCollection" where
  "step P H s (SetArgs a) = s\<lparr>args := a\<rparr>"
| "step P H s (SetKey k) = s\<lparr>key := k\<rparr>"
| "step P H s GetVirtualComponents = virtualComponents s"
| "step P H s DidInsertMainContainer = didInsertMainContainer s"
| "step P H s WillDestroyMainContainer = willDestroyMainContainer s"
| "step P H s (RadarSendsAction act index) =
     (if r_sendAction (radar s) \<and> \<not> r_destroyed (radar s) then sendAction act index s else s)"
| "step P H s (TimerFires h) =
     (if h \<in> set (timers s)
      then sendActions_callback P H (s\<lparr>timers := removeAll h (timers s)\<rparr>)
      else s)"
| "step P H s SchedulerFlush = flush s"

definition run ::
  "('a, 'v) private_imports \<Rightarrow> ('v, 'h) handler_behaviour \<Rightarrow> ('a, 'v, 'h) VerticalCollection
   \<Rightarrow> ('a, 'h) event list \<Rightarrow> ('a, 'v, 'h) VerticalCollection" where
  "run P H s es = foldl (step P H) s es"

text \<open>A run of \<^verbatim>\<open>_scheduleSendAction\<close> calls, in order.\<close>

definition scheduleSendActions ::
  "(action_name \<times> int) list \<Rightarrow> ('a, 'v, 'h) VerticalCollection \<Rightarrow> ('a, 'v, 'h) VerticalCollection" where
  "scheduleSendActions cs s = foldl (\<lambda>t c. scheduleSendAction (fst c) (snd c) t) s cs"

text \<open>Sample arguments for evaluating the model; handlers are named by strings.\<close>

definition no_args :: "(string, string) IVerticalCollectionArgs" where
  "no_args =
     \<lparr>arg_estimateHeight = None, arg_items = None, arg_staticHeight = None,
      arg_containerSelector = None, arg_bufferSize = None, arg_idForFirstItem = None,
      arg_renderFromLast = None, arg_renderAll = None, arg_lastReached = None,
      arg_firstReached = None, arg_lastVisibleChanged = None, arg_firstVisibleChanged = None,
      arg_initialRenderCount = None\<rparr>"

definition sample_args :: "(string, string) IVerticalCollectionArgs" where
  "sample_args =
     no_args\<lparr>arg_estimateHeight := Some 50, arg_items := Some [''a'', ''b'', ''c''],
             arg_staticHeight := Some True, arg_lastReached := Some ''onLastReached'',
             arg_firstVisibleChanged := Some ''onFirstVisibleChanged''\<rparr>"

text \<open>
  Sample handler behaviours: no handler throws; the handler of \<^verbatim>\<open>lastReached\<close> throws.
\<close>

definition never_throws :: "(string option, string) handler_behaviour" where
  "never_throws f item index k = False"

definition lastReached_throws :: "(string option, string) handler_behaviour" where
  "lastReached_throws f item index k = (f = ''onLastReached'')"

subsection \<open>Invariants\<close>

text \<open>
  The dispatch timer and \<^verbatim>\<open>_nextSendActions\<close>: while \<^verbatim>\<open>_nextSendActions\<close> is \<^verbatim>\<open>null\<close>
  no timer is armed; otherwise it holds a positive handle, which is the one armed timer,
  unless the timer was cleared on teardown.
\<close>

definition timer_inv :: "('a, 'v, 'h) VerticalCollection \<Rightarrow> bool" where
  "timer_inv s =
     (case nextSendActions s of
        None \<Rightarrow> timers s = []
      | Some h \<Rightarrow> h \<noteq> 0 \<and> (timers s = [h] \<or> (timers s = [] \<and> r_destroyed (radar s))))"

text \<open>The state after teardown.\<close>

definition torn_down :: "('a, 'v, 'h) VerticalCollection \<Rightarrow> bool" where
  "torn_down s = (cancelled (token s) \<and> r_destroyed (radar s) \<and> timers s = [])"

text \<open>
  What the snapshot \<^verbatim>\<open>_hasAction\<close> taken at construction from the arguments \<open>a\<close>
  guarantees: only actions whose handler was present in \<open>a\<close> are scheduled or dispatched.
\<close>

definition snapshot_inv ::
  "('a, 'h) IVerticalCollectionArgs \<Rightarrow> ('a, 'v, 'h) VerticalCollection \<Rightarrow> bool" where
  "snapshot_inv a s =
     ((\<forall>h. hasAction s = Some h \<longrightarrow> (\<forall>act. hasAction_lookup h act \<longrightarrow> args_lookup a act \<noteq> None))
      \<and> (r_sendAction (radar s) \<longrightarrow> hasAction s \<noteq> None)
      \<and> ((hasAction s = None) = (\<forall>act. args_lookup a act = None))
      \<and> (\<forall>c \<in> set (scheduledActions s). args_lookup a (fst c) \<noteq> None)
      \<and> (\<forall>c \<in> set (concat (calls s)). args_lookup a (fst c) \<noteq> None))"

text \<open>
  The options the radar receives in its constructor and the component never writes again
  (\<^verbatim>\<open>virtualComponents\<close> rewrites only \<^verbatim>\<open>items\<close>, \<^verbatim>\<open>estimateHeight\<close>, \<^verbatim>\<open>renderAll\<close>
  and \<^verbatim>\<open>bufferSize\<close>), with the class of the radar.
\<close>

definition construction_options ::
  "'a Radar \<Rightarrow> radar_class \<times> string \<times> int option \<times> string \<times> bool \<times> bool \<times> int \<times> string" where
  "construction_options r =
     (r_class r, r_containerSelector r, r_initialRenderCount r, r_key r, r_renderFromLast r,
      r_shouldRecycle r, r_startingIndex r, r_occlusionTagName r)"

section \<open>Properties of calculateStartingIndex\<close>

lemma startingIndex_loop_no_match:
  "(\<forall>j. i \<le> j \<and> j < int (length xs) \<longrightarrow>
        keyForItem P (objectAt P (Some xs) j) keyPath j \<noteq> ident)
   \<Longrightarrow> startingIndex_loop P xs ident keyPath i = 0"
proof (induction P xs ident keyPath i rule: startingIndex_loop.induct)
  case (1 P xs ident keyPath i)
  show ?case
  proof (cases "i < int (length xs)")
    case True
    with "1.prems" have ne: "keyForItem P (objectAt P (Some xs) i) keyPath i \<noteq> ident"
      by simp
    have "startingIndex_loop P xs ident keyPath (i + 1) = 0"
      using "1.IH" [OF True ne] "1.prems" by simp
    with True ne show ?thesis by simp
  next
    case False
    then show ?thesis by simp
  qed
qed

lemma startingIndex_loop_first_match:
  "i \<le> m \<Longrightarrow> m < int (length xs)
   \<Longrightarrow> keyForItem P (objectAt P (Some xs) m) keyPath m = ident
   \<Longrightarrow> (\<forall>j. i \<le> j \<and> j < m \<longrightarrow> keyForItem P (objectAt P (Some xs) j) keyPath j \<noteq> ident)
   \<Longrightarrow> startingIndex_loop P xs ident keyPath i = m"
proof (induction P xs ident keyPath i rule: startingIndex_loop.induct)
  case (1 P xs ident keyPath i)
  from "1.prems" have lt: "i < int (length xs)" by simp
  show ?case
  proof (cases "i = m")
    case True
    with lt "1.prems" show ?thesis by simp
  next
    case False
    with "1.prems" have ne: "keyForItem P (objectAt P (Some xs) i) keyPath i \<noteq> ident"
      by simp
    from False "1.prems" have "i + 1 \<le> m" by simp
    then have "startingIndex_loop P xs ident keyPath (i + 1) = m"
      using "1.IH" [OF lt ne] "1.prems" by simp
    with lt ne show ?thesis by simp
  qed
qed

text \<open>
  Claim C1. With a non-null \<^verbatim>\<open>idForFirstItem\<close>, the starting index is the smallest
  index whose key equals it, for every collection and key path; when no index matches,
  the starting index is 0. The constructor hands the radar the index computed this way
  from \<^verbatim>\<open>this.items || []\<close>, \<^verbatim>\<open>idForFirstItem\<close>, the key path and \<^verbatim>\<open>renderFromLast\<close>.
\<close>

theorem calculateStartingIndex_first_match:
  "(\<forall>m. 0 \<le> m \<and> m < int (length xs)
        \<and> keyForItem P (objectAt P (Some xs) m) keyPath m = ident
        \<and> (\<forall>j. 0 \<le> j \<and> j < m \<longrightarrow> keyForItem P (objectAt P (Some xs) j) keyPath j \<noteq> ident)
      \<longrightarrow> calculateStartingIndex P xs (Some ident) keyPath fromLast = m)
   \<and> ((\<forall>j. 0 \<le> j \<and> j < int (length xs) \<longrightarrow>
          keyForItem P (objectAt P (Some xs) j) keyPath j \<noteq> ident)
      \<longrightarrow> calculateStartingIndex P xs (Some ident) keyPath fromLast = 0)
   \<and> r_startingIndex (radar (debug_constructor P a)) =
       calculateStartingIndex P (case arg_items a of None \<Rightarrow> [] | Some ys \<Rightarrow> ys)
         (arg_idForFirstItem a) ''@identity'' (renderFromLast a)"
proof (intro conjI allI impI)
  fix m
  assume "0 \<le> m \<and> m < int (length xs)
        \<and> keyForItem P (objectAt P (Some xs) m) keyPath m = ident
        \<and> (\<forall>j. 0 \<le> j \<and> j < m \<longrightarrow> keyForItem P (objectAt P (Some xs) j) keyPath j \<noteq> ident)"
  then have "startingIndex_loop P xs ident keyPath 0 = m"
    by (intro startingIndex_loop_first_match) auto
  then show "calculateStartingIndex P xs (Some ident) keyPath fromLast = m"
    by (simp add: calculateStartingIndex_def)
next
  assume "\<forall>j. 0 \<le> j \<and> j < int (length xs) \<longrightarrow>
          keyForItem P (objectAt P (Some xs) j) keyPath j \<noteq> ident"
  then have "startingIndex_loop P xs ident keyPath 0 = 0"
    by (rule startingIndex_loop_no_match)
  then show "calculateStartingIndex P xs (Some ident) keyPath fromLast = 0"
    by (simp add: calculateStartingIndex_def)
next
  show "r_startingIndex (radar (debug_constructor P a)) =
       calculateStartingIndex P (case arg_items a of None \<Rightarrow> [] | Some ys \<Rightarrow> ys)
         (arg_idForFirstItem a) ''@identity'' (renderFromLast a)"
    by (simp add: debug_constructor_def constructor_def items_def idForFirstItem_def Let_def)
qed

theorem calculateStartingIndex_first_match_witness:
  "calculateStartingIndex sample_imports [''a'', ''b'', ''c'', ''b''] (Some ''b'') ''id'' False = 1
   \<and> calculateStartingIndex sample_imports [''a'', ''b'', ''c'', ''b''] (Some ''z'') ''id'' True = 0"
proof -
  let ?xs = "[''a'', ''b'', ''c'', ''b'']"
  have found: "0 \<le> (1::int) \<and> 1 < int (length ?xs)
        \<and> keyForItem sample_imports (objectAt sample_imports (Some ?xs) 1) ''id'' 1 = ''b''
        \<and> (\<forall>j. 0 \<le> j \<and> j < 1 \<longrightarrow>
              keyForItem sample_imports (objectAt sample_imports (Some ?xs) j) ''id'' j \<noteq> ''b'')"
    by (simp add: sample_imports_def array_objectAt_def sample_keyForItem_def)
  have missing: "\<forall>j. 0 \<le> j \<and> j < int (length ?xs) \<longrightarrow>
          keyForItem sample_imports (objectAt sample_imports (Some ?xs) j) ''id'' j \<noteq> ''z''"
    by (auto simp add: sample_imports_def array_objectAt_def sample_keyForItem_def nth_Cons
        split: nat.splits)
  from calculateStartingIndex_first_match [of ?xs sample_imports "''id''" "''b''" False] found
  have 1: "calculateStartingIndex sample_imports ?xs (Some ''b'') ''id'' False = 1"
    by blast
  from calculateStartingIndex_first_match [of ?xs sample_imports "''id''" "''z''" True] missing
  have 2: "calculateStartingIndex sample_imports ?xs (Some ''z'') ''id'' True = 0"
    by blast
  from 1 2 show ?thesis by simp
qed

text \<open>
  Claim C8. With no \<^verbatim>\<open>idForFirstItem\<close> and \<^verbatim>\<open>renderFromLast\<close> true, the starting
  index is \<^verbatim>\<open>items.length - 1\<close> for every collection; for the empty collection this
  is \<open>-1\<close>, which is not a valid index.
\<close>

theorem calculateStartingIndex_renderFromLast:
  "calculateStartingIndex P xs None keyPath True = int (length xs) - 1
   \<and> calculateStartingIndex P [] None keyPath True = - 1
   \<and> \<not> (0 \<le> calculateStartingIndex P [] None keyPath True)"
  by (simp add: calculateStartingIndex_def)

section \<open>The static occlusion scenario\<close>

text \<open>
  Claim C2. With 1000 items of estimated height 50, a viewport of height 500, buffer size
  1 and scroll offset 0, the static calculator gives \<open>renderStart = 0\<close>,
  \<open>firstVisible = 0\<close>, \<open>lastVisible = 10\<close>, \<open>renderEnd = 21\<close>, \<open>beforeSpacer = 0\<close> and
  \<open>afterSpacer = 48950\<close>; the ranges follow the formulas
  \<open>bufferItems = ceil(bufferSize * viewportHeight / estimateHeight)\<close>,
  \<open>renderStart = max(0, firstVisible - bufferItems)\<close> and
  \<open>renderEnd = min(totalItems, lastVisible + bufferItems + 1)\<close>.
\<close>

theorem static_occlusion_scenario:
  "static_occlusion 0 500 50 1 1000 =
     \<lparr>totalContentHeight = 50000, firstVisible = 0, lastVisible = 10, renderStart = 0,
      renderEnd = 21, beforeSpacer = 0, afterSpacer = 48950\<rparr>
   \<and> bufferItems 1 500 50 = 10
   \<and> bufferItems bs vh eh = ceiling (bs * vh / eh)
   \<and> renderStart (static_occlusion so vh eh bs n) =
       max 0 (firstVisible (static_occlusion so vh eh bs n) - bufferItems bs vh eh)
   \<and> renderEnd (static_occlusion so vh eh bs n) =
       min n (lastVisible (static_occlusion so vh eh bs n) + bufferItems bs vh eh + 1)"
  by (simp add: static_occlusion_def clamp_index_def bufferItems_def Let_def)

section \<open>The dispatch timer\<close>

lemmas getter_defs = staticHeight_def items_def bufferSize_def containerSelector_def
  estimateHeight_def idForFirstItem_def renderFromLast_def renderAll_def

lemmas op_defs = run_def dispatch_def handler_throws_def never_throws_def
  lastReached_throws_def scheduleSendActions_def debug_constructor_def constructor_def
  sendAction_def scheduleSendAction_def sendActions_callback_def willDestroyMainContainer_def
  clearTimeout_def cancel_def radar_destroy_def didInsertMainContainer_def schedule_def
  flush_def run_job_def radar_start_def virtualComponents_def radar_scheduleUpdate_def
  calculateStartingIndex_def Let_def

lemmas sample_defs = sample_args_def no_args_def sample_imports_def array_objectAt_def
  sample_keyForItem_def

lemma timer_inv_constructor: "timer_inv (debug_constructor P a)"
  by (simp add: timer_inv_def debug_constructor_def constructor_def Let_def)

lemma timer_inv_scheduleSendAction: "timer_inv s \<Longrightarrow> timer_inv (scheduleSendAction act i s)"
  by (auto simp add: timer_inv_def scheduleSendAction_def Let_def split: option.splits)

lemma timer_inv_run_job: "timer_inv s \<Longrightarrow> timer_inv (run_job s qj)"
  by (cases "snd qj")
     (auto simp add: timer_inv_def run_job_def radar_start_def Let_def split: option.splits)

lemma timer_inv_foldl_run_job: "timer_inv s \<Longrightarrow> timer_inv (foldl run_job s js)"
  by (induction js arbitrary: s) (simp_all add: timer_inv_run_job)

lemma timer_inv_flush: "timer_inv s \<Longrightarrow> timer_inv (flush s)"
proof -
  assume "timer_inv s"
  then have "timer_inv (foldl run_job s (queue s))" by (rule timer_inv_foldl_run_job)
  then show ?thesis by (simp add: flush_def timer_inv_def split: option.splits)
qed

lemma timer_inv_step: "timer_inv s \<Longrightarrow> timer_inv (step P H s ev)"
proof (cases ev)
  case (SetArgs a) then show "timer_inv s \<Longrightarrow> ?thesis" by (simp add: timer_inv_def split: option.splits)
next
  case (SetKey k) then show "timer_inv s \<Longrightarrow> ?thesis" by (simp add: timer_inv_def split: option.splits)
next
  case GetVirtualComponents
  then show "timer_inv s \<Longrightarrow> ?thesis"
    by (simp add: timer_inv_def virtualComponents_def radar_scheduleUpdate_def Let_def split: option.splits)
next
  case DidInsertMainContainer
  then show "timer_inv s \<Longrightarrow> ?thesis"
    by (simp add: timer_inv_def didInsertMainContainer_def schedule_def split: option.splits)
next
  case WillDestroyMainContainer
  then show "timer_inv s \<Longrightarrow> ?thesis"
    by (auto simp add: timer_inv_def willDestroyMainContainer_def clearTimeout_def cancel_def
        radar_destroy_def Let_def split: option.splits)
next
  case (RadarSendsAction act i)
  then show "timer_inv s \<Longrightarrow> ?thesis"
    by (auto simp add: sendAction_def timer_inv_scheduleSendAction split: option.splits)
next
  case (TimerFires h)
  then show "timer_inv s \<Longrightarrow> ?thesis"
    by (auto simp add: timer_inv_def sendActions_callback_def Let_def split: option.splits)
next
  case SchedulerFlush
  then show "timer_inv s \<Longrightarrow> ?thesis" by (simp add: timer_inv_flush)
qed

lemma timer_inv_run: "timer_inv s \<Longrightarrow> timer_inv (run P H s es)"
  unfolding run_def by (induction es arbitrary: s) (simp_all add: timer_inv_step)

lemma timer_inv_reachable: "timer_inv (run P H (debug_constructor P a) es)"
  by (rule timer_inv_run) (rule timer_inv_constructor)

lemma timer_inv_scheduleSendActions: "timer_inv s \<Longrightarrow> timer_inv (scheduleSendActions cs s)"
  unfolding scheduleSendActions_def
  by (induction cs arbitrary: s) (simp_all add: timer_inv_scheduleSendAction)

lemma timer_inv_timers: "timer_inv s \<Longrightarrow> length (timers s) \<le> 1"
  by (auto simp add: timer_inv_def split: option.splits)

lemma timer_inv_armed: "timer_inv s \<Longrightarrow> h \<in> set (timers s) \<Longrightarrow> timers s = [h]"
  by (auto simp add: timer_inv_def split: option.splits)

lemma scheduledActions_scheduleSendActions:
  "scheduledActions (scheduleSendActions cs s) = scheduledActions s @ cs"
  unfolding scheduleSendActions_def
  by (induction cs arbitrary: s) (simp_all add: scheduleSendAction_def Let_def)

lemma scheduleSendActions_pending:
  "nextSendActions s \<noteq> None \<Longrightarrow>
     timers (scheduleSendActions cs s) = timers s
     \<and> handles_issued (scheduleSendActions cs s) = handles_issued s
     \<and> nextSendActions (scheduleSendActions cs s) = nextSendActions s"
  unfolding scheduleSendActions_def
  by (induction cs arbitrary: s) (simp_all add: scheduleSendAction_def Let_def)

lemma scheduleSendActions_Cons:
  "scheduleSendActions (c # cs) s = scheduleSendActions cs (scheduleSendAction (fst c) (snd c) s)"
  by (simp add: scheduleSendActions_def)

lemma scheduleSendActions_first_arms:
  assumes "nextSendActions s = None" and "timer_inv s" and "cs \<noteq> []"
  shows "timers (scheduleSendActions cs s) = [Suc (handles_issued s)]
     \<and> nextSendActions (scheduleSendActions cs s) = Some (Suc (handles_issued s))"
proof -
  from assms(3) obtain c cs' where cs: "cs = c # cs'" by (cases cs) auto
  let ?s1 = "scheduleSendAction (fst c) (snd c) s"
  from assms(1,2) have t: "timers s = []" by (simp add: timer_inv_def)
  have a1: "nextSendActions ?s1 = Some (Suc (handles_issued s))"
    using assms(1) by (simp add: scheduleSendAction_def Let_def)
  have a2: "timers ?s1 = [Suc (handles_issued s)]"
    using assms(1) t by (simp add: scheduleSendAction_def Let_def)
  from a1 have "nextSendActions ?s1 \<noteq> None" by simp
  from scheduleSendActions_pending [OF this, of cs'] a1 a2 show ?thesis
    by (simp add: cs scheduleSendActions_Cons)
qed

lemma r_destroyed_scheduleSendActions:
  "r_destroyed (radar (scheduleSendActions cs s)) = r_destroyed (radar s)"
  unfolding scheduleSendActions_def
  by (induction cs arbitrary: s) (simp_all add: scheduleSendAction_def Let_def)

lemma scheduleSendActions_armed:
  assumes "timer_inv s" and "cs \<noteq> []" and "\<not> r_destroyed (radar s)"
  shows "\<exists>h. timers (scheduleSendActions cs s) = [h]
          \<and> nextSendActions (scheduleSendActions cs s) = Some h"
proof (cases "nextSendActions s")
  case None
  from scheduleSendActions_first_arms [OF None assms(1,2)] show ?thesis by blast
next
  case (Some h)
  with assms(1,3) have "timers s = [h]" by (simp add: timer_inv_def)
  moreover from Some have "nextSendActions s \<noteq> None" by simp
  ultimately show ?thesis using scheduleSendActions_pending [of s cs] Some by simp
qed

lemma calls_foldl_run_job: "calls (foldl run_job s js) = calls s"
proof (induction js arbitrary: s)
  case Nil
  show ?case by simp
next
  case (Cons j js)
  have "calls (run_job s j) = calls s"
    by (cases "snd j") (simp add: run_job_def radar_start_def Let_def)
  with Cons show ?case by simp
qed

lemma calls_step_le: "length (calls (step P H s ev)) \<le> Suc (length (calls s))"
proof (cases ev)
  case (RadarSendsAction act i)
  then show ?thesis
    by (simp add: sendAction_def scheduleSendAction_def Let_def split: option.splits)
next
  case (TimerFires h)
  then show ?thesis by (simp add: sendActions_callback_def Let_def)
next
  case SchedulerFlush
  then show ?thesis by (simp add: flush_def calls_foldl_run_job)
qed (simp_all add: virtualComponents_def didInsertMainContainer_def schedule_def
      willDestroyMainContainer_def clearTimeout_def Let_def split: option.splits)

lemma dispatch_cases:
  "dispatch P its k a x = [] \<or> (\<exists>c. dispatch P its k a x = [c])"
  by (simp add: dispatch_def Let_def split: prod.splits option.splits)

lemma forEach_scheduled_calls:
  "fst (forEach_scheduled P H its k a xs) =
     takeWhile (\<lambda>c. \<not> handler_throws H c) (concat (map (dispatch P its k a) xs))
     @ take 1 (dropWhile (\<lambda>c. \<not> handler_throws H c) (concat (map (dispatch P its k a) xs)))"
proof (induction xs)
  case Nil
  show ?case by simp
next
  case (Cons x xs)
  from dispatch_cases [of P its k a x] show ?case
  proof
    assume "dispatch P its k a x = []"
    with Cons show ?thesis by simp
  next
    assume "\<exists>c. dispatch P its k a x = [c]"
    then obtain c where c: "dispatch P its k a x = [c]" ..
    show ?thesis
    proof (cases "handler_throws H c")
      case True
      with c show ?thesis by simp
    next
      case False
      with c Cons show ?thesis by (simp add: Let_def)
    qed
  qed
qed

lemma forEach_scheduled_threw:
  "snd (forEach_scheduled P H its k a xs) =
     (\<exists>c \<in> set (concat (map (dispatch P its k a) xs)). handler_throws H c)"
proof (induction xs)
  case Nil
  show ?case by simp
next
  case (Cons x xs)
  from dispatch_cases [of P its k a x] show ?case
  proof
    assume "dispatch P its k a x = []"
    with Cons show ?thesis by simp
  next
    assume "\<exists>c. dispatch P its k a x = [c]"
    then obtain c where c: "dispatch P its k a x = [c]" ..
    show ?thesis
    proof (cases "handler_throws H c")
      case True
      with c show ?thesis by simp
    next
      case False
      with c Cons show ?thesis by (simp add: Let_def)
    qed
  qed
qed

lemma forEach_scheduled_subset:
  "set (fst (forEach_scheduled P H its k a xs)) \<subseteq> set (concat (map (dispatch P its k a) xs))"
proof -
  let ?B = "concat (map (dispatch P its k a) xs)"
  have "set (takeWhile (\<lambda>c. \<not> handler_throws H c) ?B) \<subseteq> set ?B"
    by (rule set_takeWhileD [THEN conjunct1, THEN subsetI])
  moreover have "set (take 1 (dropWhile (\<lambda>c. \<not> handler_throws H c) ?B)) \<subseteq> set ?B"
    using set_take_subset set_dropWhileD by fast
  ultimately show ?thesis unfolding forEach_scheduled_calls by simp
qed

lemma forEach_scheduled_no_throw:
  assumes "\<forall>c \<in> set (concat (map (dispatch P its k a) xs)). \<not> handler_throws H c"
  shows "forEach_scheduled P H its k a xs = (concat (map (dispatch P its k a) xs), False)"
proof -
  let ?B = "concat (map (dispatch P its k a) xs)"
  from assms have t: "takeWhile (\<lambda>c. \<not> handler_throws H c) ?B = ?B" by simp
  from assms have d: "dropWhile (\<lambda>c. \<not> handler_throws H c) ?B = []" by simp
  have "fst (forEach_scheduled P H its k a xs) = ?B"
    unfolding forEach_scheduled_calls t d by simp
  moreover have "\<not> snd (forEach_scheduled P H its k a xs)"
    unfolding forEach_scheduled_threw using assms by simp
  ultimately show ?thesis by (simp add: prod_eq_iff)
qed

lemma timer_fires:
  assumes "timer_inv s" and "h \<in> set (timers s)"
  shows "calls (step P H s (TimerFires h)) =
           calls s @ [fst (forEach_scheduled P H (items (args s)) (key s) (args s)
                             (scheduledActions s))]"
    and "scheduledActions (step P H s (TimerFires h)) =
           (if snd (forEach_scheduled P H (items (args s)) (key s) (args s) (scheduledActions s))
            then scheduledActions s else [])"
    and "timers (step P H s (TimerFires h)) = []"
    and "nextSendActions (step P H s (TimerFires h)) = None"
proof -
  from timer_inv_armed [OF assms] have t: "timers s = [h]" .
  show "calls (step P H s (TimerFires h)) =
           calls s @ [fst (forEach_scheduled P H (items (args s)) (key s) (args s)
                             (scheduledActions s))]"
    using t by (simp add: sendActions_callback_def Let_def)
  show "scheduledActions (step P H s (TimerFires h)) =
           (if snd (forEach_scheduled P H (items (args s)) (key s) (args s) (scheduledActions s))
            then scheduledActions s else [])"
    using t by (simp add: sendActions_callback_def Let_def)
  show "timers (step P H s (TimerFires h)) = []"
    using t by (simp add: sendActions_callback_def Let_def)
  show "nextSendActions (step P H s (TimerFires h)) = None"
    using t by (simp add: sendActions_callback_def Let_def)
qed

lemma never_throws_call: "\<not> handler_throws never_throws c"
  by (simp add: handler_throws_def never_throws_def split: prod.splits)

text \<open>
  Claim C3, as amended. Take any state the component can reach and any sequence of
  \<^verbatim>\<open>_scheduleSendAction\<close> calls. At most one timer is armed afterwards; the calls are
  appended, in order, to the scheduled list; when no timer was pending the first call arms
  one, and while one is pending the calls arm none. When the timer fires and no handler
  call of the batch throws, one batch is added to the handler calls: the dispatch of every
  scheduled action in call order; the scheduled list is then empty. Whether or not a
  handler throws, the firing leaves no timer armed and adds exactly one batch, and no
  event (no macrotask) adds more than one batch.
\<close>

theorem scheduleSendAction_one_timer_one_batch:
  fixes P :: "('a, 'v) private_imports" and H :: "('v, 'h) handler_behaviour"
    and a :: "('a, 'h) IVerticalCollectionArgs"
  shows
  "(let s = run P H (debug_constructor P a) es; s1 = scheduleSendActions cs s;
        B = concat (map (dispatch P (items (args s1)) (key s1) (args s1)) (scheduledActions s @ cs))
    in
      length (timers s1) \<le> 1
      \<and> scheduledActions s1 = scheduledActions s @ cs
      \<and> (nextSendActions s = None \<and> cs \<noteq> [] \<longrightarrow>
           timers s1 = [Suc (handles_issued s)]
           \<and> nextSendActions s1 = Some (Suc (handles_issued s)))
      \<and> (nextSendActions s \<noteq> None \<longrightarrow>
           timers s1 = timers s \<and> handles_issued s1 = handles_issued s
           \<and> nextSendActions s1 = nextSendActions s)
      \<and> (cs \<noteq> [] \<and> \<not> r_destroyed (radar s) \<longrightarrow>
           (\<exists>h. timers s1 = [h] \<and> nextSendActions s1 = Some h))
      \<and> (\<forall>h. h \<in> set (timers s1) \<and> (\<forall>c \<in> set B. \<not> handler_throws H c) \<longrightarrow>
           calls (step P H s1 (TimerFires h)) = calls s1 @ [B]
           \<and> scheduledActions (step P H s1 (TimerFires h)) = [])
      \<and> (\<forall>h. h \<in> set (timers s1) \<longrightarrow>
           timers (step P H s1 (TimerFires h)) = []
           \<and> nextSendActions (step P H s1 (TimerFires h)) = None
           \<and> length (calls (step P H s1 (TimerFires h))) = Suc (length (calls s1)))
      \<and> (\<forall>ev. length (calls (step P H s1 ev)) \<le> Suc (length (calls s1))))"
proof -
  define s where "s = run P H (debug_constructor P a) es"
  define s1 where "s1 = scheduleSendActions cs s"
  define B where
    "B = concat (map (dispatch P (items (args s1)) (key s1) (args s1)) (scheduledActions s @ cs))"
  have inv: "timer_inv s" unfolding s_def by (rule timer_inv_reachable)
  then have inv1: "timer_inv s1" unfolding s1_def by (rule timer_inv_scheduleSendActions)
  have sa: "scheduledActions s1 = scheduledActions s @ cs"
    unfolding s1_def by (rule scheduledActions_scheduleSendActions)
  have c1: "length (timers s1) \<le> 1" using inv1 by (rule timer_inv_timers)
  have c3: "nextSendActions s = None \<and> cs \<noteq> [] \<longrightarrow>
           timers s1 = [Suc (handles_issued s)]
           \<and> nextSendActions s1 = Some (Suc (handles_issued s))"
    unfolding s1_def using scheduleSendActions_first_arms [OF _ inv] by blast
  have c4: "nextSendActions s \<noteq> None \<longrightarrow>
           timers s1 = timers s \<and> handles_issued s1 = handles_issued s
           \<and> nextSendActions s1 = nextSendActions s"
    unfolding s1_def using scheduleSendActions_pending [of s cs] by blast
  have c5: "cs \<noteq> [] \<and> \<not> r_destroyed (radar s) \<longrightarrow>
           (\<exists>h. timers s1 = [h] \<and> nextSendActions s1 = Some h)"
    unfolding s1_def using scheduleSendActions_armed [OF inv] by blast
  have c6: "\<forall>h. h \<in> set (timers s1) \<and> (\<forall>c \<in> set B. \<not> handler_throws H c) \<longrightarrow>
           calls (step P H s1 (TimerFires h)) = calls s1 @ [B]
           \<and> scheduledActions (step P H s1 (TimerFires h)) = []"
  proof (intro allI impI)
    fix h
    assume h: "h \<in> set (timers s1) \<and> (\<forall>c \<in> set B. \<not> handler_throws H c)"
    then have "forEach_scheduled P H (items (args s1)) (key s1) (args s1) (scheduledActions s1)
        = (B, False)"
      unfolding B_def sa [symmetric] by (intro forEach_scheduled_no_throw) simp
    with timer_fires(1,2) [OF inv1, of h P H] h
    show "calls (step P H s1 (TimerFires h)) = calls s1 @ [B]
           \<and> scheduledActions (step P H s1 (TimerFires h)) = []"
      by simp
  qed
  have c7: "\<forall>h. h \<in> set (timers s1) \<longrightarrow>
           timers (step P H s1 (TimerFires h)) = []
           \<and> nextSendActions (step P H s1 (TimerFires h)) = None
           \<and> length (calls (step P H s1 (TimerFires h))) = Suc (length (calls s1))"
    using timer_fires [OF inv1] by simp
  have c8: "\<forall>ev. length (calls (step P H s1 ev)) \<le> Suc (length (calls s1))"
    by (simp add: calls_step_le)
  from c1 sa c3 c4 c5 c6 c7 c8 show ?thesis
    unfolding Let_def s_def [symmetric] s1_def [symmetric] B_def [symmetric] by blast
qed

theorem scheduleSendAction_one_timer_one_batch_witness:
  "timers (scheduleSendActions [(LastReached, 2), (FirstVisibleChanged, 1)]
      (run sample_imports never_throws (debug_constructor sample_imports sample_args) [])) = [1]
   \<and> timers (scheduleSendActions [(FirstVisibleChanged, 1)]
      (run sample_imports never_throws (debug_constructor sample_imports sample_args)
         [RadarSendsAction LastReached 2])) = [1]
   \<and> calls (step sample_imports never_throws
        (scheduleSendActions [(FirstVisibleChanged, 1)]
          (run sample_imports never_throws (debug_constructor sample_imports sample_args)
             [RadarSendsAction LastReached 2]))
        (TimerFires 1)) =
      [[(LastReached, ''onLastReached'', Some ''c'', 2, ''c''),
        (FirstVisibleChanged, ''onFirstVisibleChanged'', Some ''b'', 1, ''b'')]]
   \<and> scheduledActions (step sample_imports never_throws
        (scheduleSendActions [(FirstVisibleChanged, 1)]
          (run sample_imports never_throws (debug_constructor sample_imports sample_args)
             [RadarSendsAction LastReached 2]))
        (TimerFires 1)) = []
   \<and> timers (step sample_imports never_throws
        (scheduleSendActions [(FirstVisibleChanged, 1)]
          (run sample_imports never_throws (debug_constructor sample_imports sample_args)
             [RadarSendsAction LastReached 2]))
        (TimerFires 1)) = []"
proof -
  let ?init = "run sample_imports never_throws (debug_constructor sample_imports sample_args) []"
  let ?pend = "run sample_imports never_throws (debug_constructor sample_imports sample_args)
             [RadarSendsAction LastReached 2]"
  let ?more = "scheduleSendActions [(FirstVisibleChanged, 1)] ?pend"
  let ?B = "concat (map (dispatch sample_imports (items (args ?more)) (key ?more) (args ?more))
              (scheduledActions ?pend @ [(FirstVisibleChanged, 1)]))"
  have idle: "nextSendActions ?init = None" "handles_issued ?init = 0"
    by (simp_all add: op_defs getter_defs sample_defs)
  have pending: "nextSendActions ?pend \<noteq> None" "timers ?pend = [1]"
    by (simp_all add: op_defs getter_defs sample_defs)
  have c: "calls ?more = []" by (simp add: op_defs getter_defs sample_defs)
  have d: "?B = [(LastReached, ''onLastReached'', Some ''c'', 2, ''c''),
        (FirstVisibleChanged, ''onFirstVisibleChanged'', Some ''b'', 1, ''b'')]"
    by (simp add: op_defs getter_defs sample_defs)
  have quiet: "\<forall>c \<in> set ?B. \<not> handler_throws never_throws c"
    by (simp add: never_throws_call)
  from scheduleSendAction_one_timer_one_batch
    [of sample_imports never_throws sample_args "[]"
      "[(LastReached, 2), (FirstVisibleChanged, 1)]"] idle
  have first: "timers (scheduleSendActions [(LastReached, 2), (FirstVisibleChanged, 1)] ?init) = [1]"
    unfolding Let_def by simp
  note at_pend = scheduleSendAction_one_timer_one_batch
    [of sample_imports never_throws sample_args "[RadarSendsAction LastReached 2]"
      "[(FirstVisibleChanged, 1)]", unfolded Let_def]
  from at_pend pending have t: "timers ?more = [1]" by simp
  from at_pend
  have "\<forall>h. h \<in> set (timers ?more) \<and> (\<forall>c \<in> set ?B. \<not> handler_throws never_throws c) \<longrightarrow>
           calls (step sample_imports never_throws ?more (TimerFires h)) = calls ?more @ [?B]
           \<and> scheduledActions (step sample_imports never_throws ?more (TimerFires h)) = []"
    by blast
  with t quiet have fired: "calls (step sample_imports never_throws ?more (TimerFires 1)) =
      calls ?more @ [?B]
      \<and> scheduledActions (step sample_imports never_throws ?more (TimerFires 1)) = []"
    by simp
  from at_pend
  have "\<forall>h. h \<in> set (timers ?more) \<longrightarrow>
           timers (step sample_imports never_throws ?more (TimerFires h)) = []"
    by blast
  with t have disarmed: "timers (step sample_imports never_throws ?more (TimerFires 1)) = []"
    by simp
  from first t fired disarmed show ?thesis unfolding d c by simp
qed

text \<open>
  The claim without the condition on the handlers fails: with the two actions below
  scheduled and a \<^verbatim>\<open>lastReached\<close> handler that throws, the firing calls that handler
  only, the second action is not dispatched, and the scheduled list is not emptied.
\<close>

theorem scheduleSendAction_one_timer_one_batch_counterexample:
  "timers (scheduleSendActions [(LastReached, 2), (FirstVisibleChanged, 1)]
      (debug_constructor sample_imports sample_args
        :: (string, string option, string) VerticalCollection)) = [1]
   \<and> calls (step sample_imports lastReached_throws
        (scheduleSendActions [(LastReached, 2), (FirstVisibleChanged, 1)]
          (debug_constructor sample_imports sample_args))
        (TimerFires 1)) =
      [[(LastReached, ''onLastReached'', Some ''c'', 2, ''c'')]]
   \<and> scheduledActions (step sample_imports lastReached_throws
        (scheduleSendActions [(LastReached, 2), (FirstVisibleChanged, 1)]
          (debug_constructor sample_imports sample_args))
        (TimerFires 1)) =
      [(LastReached, 2), (FirstVisibleChanged, 1)]
   \<and> scheduledActions (step sample_imports lastReached_throws
        (scheduleSendActions [(LastReached, 2), (FirstVisibleChanged, 1)]
          (debug_constructor sample_imports sample_args))
        (TimerFires 1)) \<noteq> []"
  by (simp add: op_defs getter_defs sample_defs)

section \<open>Teardown\<close>

lemma willDestroyMainContainer_torn_down:
  "timer_inv s \<Longrightarrow> torn_down (willDestroyMainContainer s)"
  by (auto simp add: timer_inv_def torn_down_def willDestroyMainContainer_def clearTimeout_def
      cancel_def radar_destroy_def Let_def split: option.splits)

lemma willDestroyMainContainer_log:
  "calls (willDestroyMainContainer s) = calls s
   \<and> r_startCalls (radar (willDestroyMainContainer s)) = r_startCalls (radar s)
   \<and> failures (willDestroyMainContainer s) = failures s"
  by (simp add: willDestroyMainContainer_def clearTimeout_def cancel_def radar_destroy_def
      Let_def split: option.splits)

lemma foldl_run_job_cancelled: "cancelled (token s) \<Longrightarrow> foldl run_job s js = s"
  by (induction js) (simp_all add: run_job_def)

lemma torn_down_step:
  assumes "torn_down s"
  shows "torn_down (step P H s ev) \<and> calls (step P H s ev) = calls s
     \<and> r_startCalls (radar (step P H s ev)) = r_startCalls (radar s)
     \<and> failures (step P H s ev) = failures s"
proof (cases ev)
  case (SetArgs a)
  with assms show ?thesis by (simp add: torn_down_def)
next
  case (SetKey k)
  with assms show ?thesis by (simp add: torn_down_def)
next
  case GetVirtualComponents
  with assms show ?thesis
    by (simp add: torn_down_def virtualComponents_def radar_scheduleUpdate_def Let_def)
next
  case DidInsertMainContainer
  with assms show ?thesis by (simp add: torn_down_def didInsertMainContainer_def schedule_def)
next
  case WillDestroyMainContainer
  with assms show ?thesis
    by (simp add: torn_down_def willDestroyMainContainer_def clearTimeout_def cancel_def
        radar_destroy_def Let_def split: option.splits)
next
  case (RadarSendsAction act i)
  with assms show ?thesis by (simp add: torn_down_def)
next
  case (TimerFires h)
  with assms show ?thesis by (simp add: torn_down_def)
next
  case SchedulerFlush
  from assms have "cancelled (token s)" by (simp add: torn_down_def)
  then have "foldl run_job s (queue s) = s" by (rule foldl_run_job_cancelled)
  with SchedulerFlush assms show ?thesis by (simp add: torn_down_def flush_def)
qed

lemma torn_down_run:
  "torn_down s \<Longrightarrow> torn_down (run P H s es) \<and> calls (run P H s es) = calls s
     \<and> r_startCalls (radar (run P H s es)) = r_startCalls (radar s)
     \<and> failures (run P H s es) = failures s"
  unfolding run_def
proof (induction es arbitrary: s)
  case Nil
  then show ?case by simp
next
  case (Cons e es)
  from torn_down_step [OF Cons.prems, of P H e] Cons.IH [of "step P H s e"]
  show ?case by simp
qed

text \<open>
  Claim C4. \<^verbatim>\<open>willDestroyMainContainer\<close> cancels the token, destroys the radar and clears
  the pending dispatch timer: in the state after it, reached from any state the component
  can reach, no timer is armed. Whatever happens afterwards, no handler is called, the
  scheduled \<^verbatim>\<open>start()\<close> job never runs, and no timer is armed again.
\<close>

theorem willDestroyMainContainer_silences:
  fixes P :: "('a, 'v) private_imports" and a :: "('a, 'h) IVerticalCollectionArgs"
  shows
  "(let s = run P H (debug_constructor P a) es;
        d = step P H s WillDestroyMainContainer;
        t = run P H d es'
    in cancelled (token d) \<and> r_destroyed (radar d) \<and> timers d = []
       \<and> cancelled (token t) \<and> r_destroyed (radar t) \<and> timers t = []
       \<and> calls t = calls s
       \<and> r_startCalls (radar t) = r_startCalls (radar s)
       \<and> failures t = failures s)"
proof -
  define s where "s = run P H (debug_constructor P a) es"
  define d where "d = step P H s WillDestroyMainContainer"
  define t where "t = run P H d es'"
  have "timer_inv s" unfolding s_def by (rule timer_inv_reachable)
  then have td: "torn_down d" unfolding d_def by (simp add: willDestroyMainContainer_torn_down)
  have dl: "calls d = calls s \<and> r_startCalls (radar d) = r_startCalls (radar s)
     \<and> failures d = failures s"
    unfolding d_def using willDestroyMainContainer_log [of s] by simp
  from torn_down_run [OF td, of P H es'] have tt: "torn_down t \<and> calls t = calls d
     \<and> r_startCalls (radar t) = r_startCalls (radar d) \<and> failures t = failures d"
    unfolding t_def .
  from td tt dl show ?thesis
    unfolding Let_def s_def [symmetric] d_def [symmetric] t_def [symmetric]
    by (simp add: torn_down_def)
qed

theorem willDestroyMainContainer_silences_witness:
  "timers (run sample_imports never_throws (debug_constructor sample_imports sample_args)
             [DidInsertMainContainer, RadarSendsAction LastReached 2]) = [1]
   \<and> queue (run sample_imports never_throws (debug_constructor sample_imports sample_args)
             [DidInsertMainContainer, RadarSendsAction LastReached 2]) = [(''sync'', RadarStartJob)]
   \<and> calls (run sample_imports never_throws
        (step sample_imports never_throws
          (run sample_imports never_throws (debug_constructor sample_imports sample_args)
             [DidInsertMainContainer, RadarSendsAction LastReached 2])
          WillDestroyMainContainer)
        [TimerFires 1, SchedulerFlush, RadarSendsAction LastReached 2, TimerFires 2]) = []
   \<and> r_startCalls (radar (run sample_imports never_throws
        (step sample_imports never_throws
          (run sample_imports never_throws (debug_constructor sample_imports sample_args)
             [DidInsertMainContainer, RadarSendsAction LastReached 2])
          WillDestroyMainContainer)
        [TimerFires 1, SchedulerFlush, RadarSendsAction LastReached 2, TimerFires 2])) = 0"
proof -
  let ?s = "run sample_imports never_throws (debug_constructor sample_imports sample_args)
             [DidInsertMainContainer, RadarSendsAction LastReached 2]"
  have before: "timers ?s = [1]" "queue ?s = [(''sync'', RadarStartJob)]" "calls ?s = []"
    "r_startCalls (radar ?s) = 0"
    by (simp_all add: op_defs getter_defs sample_defs)
  from willDestroyMainContainer_silences
    [of sample_imports never_throws sample_args
      "[DidInsertMainContainer, RadarSendsAction LastReached 2]"
      "[TimerFires 1, SchedulerFlush, RadarSendsAction LastReached 2, TimerFires 2]"]
  show ?thesis unfolding Let_def using before by simp
qed

section \<open>What a batch delivers\<close>

text \<open>
  Claim C5, as amended. When the timer fires, the handler calls are made in scheduling
  order for the scheduled actions whose handler is a function at that moment, up to and
  including the first call that throws; when no call throws, every such action is
  delivered. Each call delivers \<open>(item, index, key)\<close> with \<open>item = objectAt(items, index)\<close>
  and \<open>key = keyForItem(item, keyPath, index)\<close>, where \<open>items\<close>, \<open>keyPath\<close> and the handler
  are read from the component when the batch fires: if the arguments and the key path
  change after the actions were scheduled, the new ones are used.
\<close>

theorem timer_callback_resolves_at_fire_time:
  fixes P :: "('a, 'v) private_imports" and H :: "('v, 'h) handler_behaviour"
    and s :: "('a, 'v, 'h) VerticalCollection"
  shows
  "(let B = concat (map (\<lambda>(act, index).
            case args_lookup (args s) act of
              Some f \<Rightarrow> [(act, f, objectAt P (arg_items (args s)) index, index,
                          keyForItem P (objectAt P (arg_items (args s)) index) (key s) index)]
            | None \<Rightarrow> []) (scheduledActions s))
    in h \<in> set (timers s) \<longrightarrow>
       calls (step P H s (TimerFires h)) =
         calls s @ [takeWhile (\<lambda>c. \<not> handler_throws H c) B
                    @ take 1 (dropWhile (\<lambda>c. \<not> handler_throws H c) B)]
       \<and> ((\<forall>c \<in> set B. \<not> handler_throws H c) \<longrightarrow>
            calls (step P H s (TimerFires h)) = calls s @ [B]))
   \<and> (let s1 = run P H (scheduleSendActions cs s) [SetArgs a', SetKey k'];
          B = concat (map (\<lambda>(act, index).
            case args_lookup a' act of
              Some f \<Rightarrow> [(act, f, objectAt P (arg_items a') index, index,
                          keyForItem P (objectAt P (arg_items a') index) k' index)]
            | None \<Rightarrow> []) (scheduledActions s @ cs))
      in h \<in> set (timers s1) \<longrightarrow>
         calls (step P H s1 (TimerFires h)) =
           calls s @ [takeWhile (\<lambda>c. \<not> handler_throws H c) B
                      @ take 1 (dropWhile (\<lambda>c. \<not> handler_throws H c) B)]
         \<and> ((\<forall>c \<in> set B. \<not> handler_throws H c) \<longrightarrow>
              calls (step P H s1 (TimerFires h)) = calls s @ [B]))"
proof -
  have eq: "\<And>its k a. dispatch P its k a = (\<lambda>(act, index).
            case args_lookup a act of
              Some f \<Rightarrow> [(act, f, objectAt P its index, index,
                          keyForItem P (objectAt P its index) k index)]
            | None \<Rightarrow> [])"
    by (rule ext) (simp add: dispatch_def Let_def split: prod.splits)
  have quiet: "takeWhile (\<lambda>c. \<not> handler_throws H c) B
        @ take 1 (dropWhile (\<lambda>c. \<not> handler_throws H c) B) = B"
    if "\<forall>c \<in> set B. \<not> handler_throws H c" for B :: "('v, 'h) handler_call list"
  proof -
    from that have t: "takeWhile (\<lambda>c. \<not> handler_throws H c) B = B"
      and d: "dropWhile (\<lambda>c. \<not> handler_throws H c) B = []"
      by simp_all
    show ?thesis unfolding t d by simp
  qed
  have fire: "\<And>u. h \<in> set (timers u) \<Longrightarrow> calls (step P H u (TimerFires h)) =
        calls u @
        [takeWhile (\<lambda>c. \<not> handler_throws H c)
           (concat (map (dispatch P (arg_items (args u)) (key u) (args u)) (scheduledActions u)))
         @ take 1 (dropWhile (\<lambda>c. \<not> handler_throws H c)
           (concat (map (dispatch P (arg_items (args u)) (key u) (args u)) (scheduledActions u))))]"
    by (simp add: sendActions_callback_def Let_def items_def forEach_scheduled_calls)
  have calls_sched: "calls (scheduleSendActions cs s) = calls s"
    unfolding scheduleSendActions_def
    by (induction cs arbitrary: s) (simp_all add: scheduleSendAction_def Let_def)
  let ?s1 = "run P H (scheduleSendActions cs s) [SetArgs a', SetKey k']"
  have f1: "args ?s1 = a'" "key ?s1 = k'" "calls ?s1 = calls s"
    "scheduledActions ?s1 = scheduledActions s @ cs"
    by (simp_all add: run_def calls_sched scheduledActions_scheduleSendActions)
  have part1: "h \<in> set (timers s) \<longrightarrow>
       calls (step P H s (TimerFires h)) =
         calls s @ [takeWhile (\<lambda>c. \<not> handler_throws H c)
             (concat (map (dispatch P (arg_items (args s)) (key s) (args s)) (scheduledActions s)))
           @ take 1 (dropWhile (\<lambda>c. \<not> handler_throws H c)
             (concat (map (dispatch P (arg_items (args s)) (key s) (args s)) (scheduledActions s))))]
       \<and> ((\<forall>c \<in> set (concat (map (dispatch P (arg_items (args s)) (key s) (args s))
                 (scheduledActions s))). \<not> handler_throws H c) \<longrightarrow>
            calls (step P H s (TimerFires h)) =
              calls s @ [concat (map (dispatch P (arg_items (args s)) (key s) (args s))
                 (scheduledActions s))])"
    using fire [of s] quiet by simp
  have part2: "h \<in> set (timers ?s1) \<longrightarrow>
         calls (step P H ?s1 (TimerFires h)) =
           calls s @ [takeWhile (\<lambda>c. \<not> handler_throws H c)
               (concat (map (dispatch P (arg_items a') k' a') (scheduledActions s @ cs)))
             @ take 1 (dropWhile (\<lambda>c. \<not> handler_throws H c)
               (concat (map (dispatch P (arg_items a') k' a') (scheduledActions s @ cs))))]
         \<and> ((\<forall>c \<in> set (concat (map (dispatch P (arg_items a') k' a') (scheduledActions s @ cs))).
                \<not> handler_throws H c) \<longrightarrow>
              calls (step P H ?s1 (TimerFires h)) =
                calls s @ [concat (map (dispatch P (arg_items a') k' a') (scheduledActions s @ cs))])"
    using fire [of ?s1] quiet unfolding f1 by simp
  from part1 part2 show ?thesis unfolding Let_def eq by blast
qed

theorem timer_callback_resolves_at_fire_time_witness:
  "calls (step sample_imports never_throws
      (scheduleSendActions [(LastReached, 1)] (debug_constructor sample_imports sample_args))
      (TimerFires 1)) =
    [[(LastReached, ''onLastReached'', Some ''b'', 1, ''b'')]]
   \<and> calls (step sample_imports never_throws
      (run sample_imports never_throws
         (scheduleSendActions [(LastReached, 1)] (debug_constructor sample_imports sample_args))
         [SetArgs (sample_args\<lparr>arg_items := Some [''x'', ''y'']\<rparr>), SetKey ''@index''])
      (TimerFires 1)) =
    [[(LastReached, ''onLastReached'', Some ''y'', 1, ''i'')]]"
proof -
  let ?init = "debug_constructor sample_imports sample_args
    :: (string, string option, string) VerticalCollection"
  let ?a = "sample_args\<lparr>arg_items := Some [''x'', ''y'']\<rparr>"
  let ?sched = "scheduleSendActions [(LastReached, 1)] ?init"
  let ?later = "run sample_imports never_throws ?sched [SetArgs ?a, SetKey ''@index'']"
  have t0: "1 \<in> set (timers ?sched)" by (simp add: op_defs getter_defs sample_defs)
  have t: "1 \<in> set (timers ?later)" by (simp add: op_defs getter_defs sample_defs)
  have c: "calls ?init = []" "scheduledActions ?init = []"
    by (simp_all add: op_defs getter_defs sample_defs)
  have f: "calls ?sched = []" "scheduledActions ?sched = [(LastReached, 1)]"
    "args ?sched = sample_args" "key ?sched = ''@identity''"
    by (simp_all add: op_defs getter_defs sample_defs)
  note inst1 = timer_callback_resolves_at_fire_time
    [where s = ?sched and P = sample_imports and h = 1 and H = never_throws and cs = "[]"
      and a' = ?a and k' = "''@index''", unfolded Let_def,
      THEN conjunct1, rule_format, OF t0, THEN conjunct2, rule_format]
  have 1: "calls (step sample_imports never_throws ?sched (TimerFires 1)) =
      [[(LastReached, ''onLastReached'', Some ''b'', 1, ''b'')]]"
    using inst1 unfolding f by (simp add: sample_defs never_throws_call)
  note inst2 = timer_callback_resolves_at_fire_time
    [where s = ?init and P = sample_imports and h = 1 and H = never_throws
      and cs = "[(LastReached, 1)]" and a' = ?a and k' = "''@index''", unfolded Let_def, THEN conjunct2, rule_format, OF t, THEN conjunct2, rule_format]
  have 2: "calls (step sample_imports never_throws ?later (TimerFires 1)) =
      [[(LastReached, ''onLastReached'', Some ''y'', 1, ''i'')]]"
    using inst2 unfolding c by (simp add: sample_defs never_throws_call)
  from 1 2 show ?thesis by simp
qed

text \<open>
  The claim without the condition on the handlers fails: \<^verbatim>\<open>firstVisibleChanged\<close> has a
  handler and is in the batch, after a \<^verbatim>\<open>lastReached\<close> action whose handler throws, and
  nothing is delivered to it.
\<close>

theorem timer_callback_resolves_at_fire_time_counterexample:
  "args_lookup sample_args FirstVisibleChanged = Some ''onFirstVisibleChanged''
   \<and> scheduledActions (scheduleSendActions [(LastReached, 0), (FirstVisibleChanged, 2)]
        (debug_constructor sample_imports sample_args
          :: (string, string option, string) VerticalCollection)) =
      [(LastReached, 0), (FirstVisibleChanged, 2)]
   \<and> calls (step sample_imports lastReached_throws
        (scheduleSendActions [(LastReached, 0), (FirstVisibleChanged, 2)]
          (debug_constructor sample_imports sample_args))
        (TimerFires 1)) =
      [[(LastReached, ''onLastReached'', Some ''a'', 0, ''a'')]]"
  by (simp add: op_defs getter_defs sample_defs)

section \<open>The buffer size\<close>

lemma flush_empty_queue: "queue s = [] \<Longrightarrow> flush s = s"
  by (simp add: flush_def)

lemma queue_flush: "queue (flush s) = []"
  by (simp add: flush_def)

lemma run_replicate_flush:
  "queue s = [] \<Longrightarrow> run P H s (replicate n SchedulerFlush) = s"
  unfolding run_def by (induction n) (simp_all add: flush_empty_queue)

text \<open>
  Claim C6. A \<^verbatim>\<open>bufferSize\<close> that is not supplied defaults to 1. A configured
  \<^verbatim>\<open>bufferSize <= 0\<close> makes \<^verbatim>\<open>start()\<close> fail with an assertion; after the component is
  inserted and the scheduler has flushed, the failure has been raised once, and further
  flushes do not run \<^verbatim>\<open>start()\<close> again.
\<close>

theorem bufferSize_default_and_assertion:
  fixes P :: "('a, 'v) private_imports" and a :: "('a, 'h) IVerticalCollectionArgs"
  shows
  "(arg_bufferSize a = None \<longrightarrow>
      bufferSize a = 1 \<and> r_bufferSize (radar (debug_constructor P a)) = 1)
   \<and> (\<forall>b. arg_bufferSize a = Some b \<and> b \<le> 0 \<longrightarrow>
        (\<forall>r::'a Radar. r_bufferSize r = b \<longrightarrow> radar_start r = Inl BufferSizeNotPositive)
        \<and> (let s = run P H (debug_constructor P a)
                     (DidInsertMainContainer # SchedulerFlush # replicate n SchedulerFlush)
           in failures s = [BufferSizeNotPositive]
              \<and> r_startCalls (radar s) = 1
              \<and> \<not> r_started (radar s)))"
proof (intro conjI allI impI)
  assume "arg_bufferSize a = None"
  then show "bufferSize a = 1" by (simp add: bufferSize_def)
next
  assume "arg_bufferSize a = None"
  then show "r_bufferSize (radar (debug_constructor P a)) = 1"
    by (simp add: bufferSize_def debug_constructor_def constructor_def Let_def)
next
  fix b and r :: "'a Radar"
  assume "arg_bufferSize a = Some b \<and> b \<le> 0" and "r_bufferSize r = b"
  then show "radar_start r = Inl BufferSizeNotPositive" by (simp add: radar_start_def)
next
  fix b
  assume b: "arg_bufferSize a = Some b \<and> b \<le> 0"
  let ?s2 = "flush (didInsertMainContainer (debug_constructor P a))"
  have q: "queue ?s2 = []" by (rule queue_flush)
  have r: "run P H (debug_constructor P a)
             (DidInsertMainContainer # SchedulerFlush # replicate n SchedulerFlush) = ?s2"
    using run_replicate_flush [OF q, of P H n] by (simp add: run_def)
  have "failures ?s2 = [BufferSizeNotPositive] \<and> r_startCalls (radar ?s2) = 1
      \<and> \<not> r_started (radar ?s2)"
    using b
    by (simp add: flush_def didInsertMainContainer_def schedule_def run_job_def radar_start_def
        debug_constructor_def constructor_def bufferSize_def Let_def)
  then show "let s = run P H (debug_constructor P a)
                     (DidInsertMainContainer # SchedulerFlush # replicate n SchedulerFlush)
           in failures s = [BufferSizeNotPositive]
              \<and> r_startCalls (radar s) = 1
              \<and> \<not> r_started (radar s)"
    unfolding Let_def r .
qed

theorem bufferSize_default_and_assertion_witness:
  "bufferSize no_args = 1
   \<and> failures (run sample_imports never_throws (debug_constructor sample_imports (no_args\<lparr>arg_bufferSize := Some 0\<rparr>))
       [DidInsertMainContainer, SchedulerFlush, SchedulerFlush, SchedulerFlush]) = [BufferSizeNotPositive]
   \<and> \<not> r_started (radar (run sample_imports never_throws (debug_constructor sample_imports (no_args\<lparr>arg_bufferSize := Some 0\<rparr>))
       [DidInsertMainContainer, SchedulerFlush, SchedulerFlush, SchedulerFlush]))"
proof -
  have n: "arg_bufferSize no_args = None" by (simp add: no_args_def)
  have b: "arg_bufferSize (no_args\<lparr>arg_bufferSize := Some 0\<rparr>) = Some 0 \<and> (0::rat) \<le> 0" by simp
  have r: "replicate 2 SchedulerFlush = [SchedulerFlush, SchedulerFlush]"
    by (simp add: numeral_2_eq_2)
  from bufferSize_default_and_assertion [of no_args sample_imports never_throws 2] n
  have 1: "bufferSize no_args = 1" by blast
  from bufferSize_default_and_assertion
    [of "no_args\<lparr>arg_bufferSize := Some 0\<rparr>" sample_imports never_throws 2] b
  have "let s = run sample_imports never_throws (debug_constructor sample_imports (no_args\<lparr>arg_bufferSize := Some 0\<rparr>))
                     (DidInsertMainContainer # SchedulerFlush # replicate 2 SchedulerFlush)
           in failures s = [BufferSizeNotPositive]
              \<and> r_startCalls (radar s) = 1
              \<and> \<not> r_started (radar s)"
    by blast
  with 1 show ?thesis unfolding Let_def r by simp
qed

section \<open>The choice of the radar class\<close>

lemma construction_options_foldl_run_job:
  "construction_options (radar (foldl run_job s js)) = construction_options (radar s)"
proof (induction js arbitrary: s)
  case Nil
  show ?case by simp
next
  case (Cons j js)
  have "construction_options (radar (run_job s j)) = construction_options (radar s)"
    by (cases "snd j") (simp add: construction_options_def run_job_def radar_start_def Let_def)
  with Cons show ?case by simp
qed

lemma construction_options_step:
  "construction_options (radar (step P H s ev)) = construction_options (radar s)"
proof (cases ev)
  case (RadarSendsAction act i)
  then show ?thesis
    by (simp add: construction_options_def sendAction_def scheduleSendAction_def Let_def
        split: option.splits)
next
  case (TimerFires h)
  then show ?thesis by (simp add: construction_options_def sendActions_callback_def Let_def)
next
  case SchedulerFlush
  then show ?thesis by (simp add: flush_def construction_options_foldl_run_job)
next
  case GetVirtualComponents
  then show ?thesis
    by (simp add: construction_options_def virtualComponents_def radar_scheduleUpdate_def Let_def)
next
  case WillDestroyMainContainer
  then show ?thesis
    by (simp add: construction_options_def willDestroyMainContainer_def clearTimeout_def
        radar_destroy_def Let_def split: option.splits)
qed (simp_all add: construction_options_def didInsertMainContainer_def schedule_def)

lemma construction_options_run:
  "construction_options (radar (run P H s es)) = construction_options (radar s)"
  unfolding run_def by (induction es arbitrary: s) (simp_all add: construction_options_step)

lemma r_class_run: "r_class (radar (run P H s es)) = r_class (radar s)"
  using construction_options_run [of P H s es] by (simp add: construction_options_def)

text \<open>
  Claim C7. The constructor chooses \<^verbatim>\<open>StaticRadar\<close> when \<^verbatim>\<open>staticHeight\<close> is true and
  \<^verbatim>\<open>DynamicRadar\<close> otherwise, and the class of \<^verbatim>\<open>_radar\<close> is the one chosen at
  construction after every sequence of events, also when the arguments change; the radar
  keeps the options it was constructed with.
\<close>

theorem radar_class_chosen_once:
  fixes P :: "('a, 'v) private_imports" and a :: "('a, 'h) IVerticalCollectionArgs"
  shows
  "r_class (radar (debug_constructor P a)) = (if staticHeight a then StaticRadar else DynamicRadar)
   \<and> r_class (radar (run P H (debug_constructor P a) es)) =
       (if staticHeight a then StaticRadar else DynamicRadar)
   \<and> r_class (radar (run P H (debug_constructor P a) (es @ SetArgs a' # es'))) =
       (if staticHeight a then StaticRadar else DynamicRadar)
   \<and> construction_options (radar (run P H (debug_constructor P a) es)) =
       construction_options (radar (debug_constructor P a))"
  by (simp add: r_class_run construction_options_run debug_constructor_def constructor_def
      Let_def)

theorem radar_class_chosen_once_witness:
  "r_class (radar (run sample_imports never_throws (debug_constructor sample_imports sample_args)
      [SetArgs no_args, GetVirtualComponents, WillDestroyMainContainer])) = StaticRadar
   \<and> r_class (radar (run sample_imports never_throws (debug_constructor sample_imports no_args)
      [SetArgs sample_args, GetVirtualComponents])) = DynamicRadar"
  using radar_class_chosen_once
      [of sample_imports sample_args never_throws
        "[SetArgs no_args, GetVirtualComponents, WillDestroyMainContainer]"]
    radar_class_chosen_once
      [of sample_imports no_args never_throws "[SetArgs sample_args, GetVirtualComponents]"]
  by (simp add: staticHeight_def sample_args_def no_args_def)

section \<open>The snapshot of the handlers\<close>

lemma args_lookup_all_None:
  "(\<forall>act. args_lookup a act = None) =
     (arg_lastReached a = None \<and> arg_firstReached a = None
      \<and> arg_lastVisibleChanged a = None \<and> arg_firstVisibleChanged a = None)"
proof
  assume h: "\<forall>act. args_lookup a act = None"
  from h [rule_format, of LastReached] h [rule_format, of FirstReached]
    h [rule_format, of LastVisibleChanged] h [rule_format, of FirstVisibleChanged]
  show "arg_lastReached a = None \<and> arg_firstReached a = None
      \<and> arg_lastVisibleChanged a = None \<and> arg_firstVisibleChanged a = None" by simp
next
  assume h: "arg_lastReached a = None \<and> arg_firstReached a = None
      \<and> arg_lastVisibleChanged a = None \<and> arg_firstVisibleChanged a = None"
  show "\<forall>act. args_lookup a act = None"
  proof
    fix act show "args_lookup a act = None" using h by (cases act) simp_all
  qed
qed

lemma snapshot_inv_constructor: "snapshot_inv a (debug_constructor P a)"
proof -
  have 1: "\<forall>h. hasAction (debug_constructor P a) = Some h \<longrightarrow>
       (\<forall>act. hasAction_lookup h act \<longrightarrow> args_lookup a act \<noteq> None)"
  proof (intro allI impI)
    fix h act
    assume "hasAction (debug_constructor P a) = Some h" and "hasAction_lookup h act"
    then show "args_lookup a act \<noteq> None"
      by (cases act) (auto simp add: debug_constructor_def constructor_def Let_def split: if_splits)
  qed
  have 2: "r_sendAction (radar (debug_constructor P a)) \<longrightarrow> hasAction (debug_constructor P a) \<noteq> None"
    by (simp add: debug_constructor_def constructor_def Let_def)
  have 3: "(hasAction (debug_constructor P a) = None) = (\<forall>act. args_lookup a act = None)"
    unfolding args_lookup_all_None
    by (simp add: debug_constructor_def constructor_def Let_def)
  have 4: "scheduledActions (debug_constructor P a) = []" "calls (debug_constructor P a) = []"
    by (simp_all add: debug_constructor_def constructor_def Let_def)
  from 1 2 3 4 show ?thesis unfolding snapshot_inv_def by simp
qed

lemma fst_dispatch:
  "c \<in> set (concat (map (dispatch P its k a') xs)) \<Longrightarrow> fst c \<in> fst ` set xs"
  by (induction xs) (auto simp add: dispatch_def Let_def split: option.splits prod.splits)

lemma unchanged_foldl_run_job:
  "hasAction (foldl run_job s js) = hasAction s
   \<and> r_sendAction (radar (foldl run_job s js)) = r_sendAction (radar s)
   \<and> scheduledActions (foldl run_job s js) = scheduledActions s"
proof (induction js arbitrary: s)
  case Nil
  show ?case by simp
next
  case (Cons j js)
  have "hasAction (run_job s j) = hasAction s
   \<and> r_sendAction (radar (run_job s j)) = r_sendAction (radar s)
   \<and> scheduledActions (run_job s j) = scheduledActions s"
    by (cases "snd j") (simp add: run_job_def radar_start_def Let_def)
  with Cons [of "run_job s j"] show ?case by simp
qed

lemma no_member_Nil: "\<forall>c \<in> set xs. False \<Longrightarrow> xs = []"
  by (cases xs) auto

lemma snapshot_inv_cong:
  "hasAction t = hasAction s \<Longrightarrow> r_sendAction (radar t) = r_sendAction (radar s)
   \<Longrightarrow> scheduledActions t = scheduledActions s \<Longrightarrow> calls t = calls s
   \<Longrightarrow> snapshot_inv a t = snapshot_inv a s"
  by (simp add: snapshot_inv_def)

lemma snapshot_inv_step:
  assumes "snapshot_inv a s"
  shows "snapshot_inv a (step P H s ev)"
proof (cases ev)
  case (SetArgs a')
  have "snapshot_inv a (step P H s ev) = snapshot_inv a s"
    by (rule snapshot_inv_cong) (simp_all add: SetArgs)
  with assms show ?thesis by simp
next
  case (SetKey k)
  have "snapshot_inv a (step P H s ev) = snapshot_inv a s"
    by (rule snapshot_inv_cong) (simp_all add: SetKey)
  with assms show ?thesis by simp
next
  case GetVirtualComponents
  have "snapshot_inv a (step P H s ev) = snapshot_inv a s"
    by (rule snapshot_inv_cong)
       (simp_all add: GetVirtualComponents virtualComponents_def radar_scheduleUpdate_def Let_def)
  with assms show ?thesis by simp
next
  case DidInsertMainContainer
  have "snapshot_inv a (step P H s ev) = snapshot_inv a s"
    by (rule snapshot_inv_cong)
       (simp_all add: DidInsertMainContainer didInsertMainContainer_def schedule_def)
  with assms show ?thesis by simp
next
  case WillDestroyMainContainer
  have "snapshot_inv a (step P H s ev) = snapshot_inv a s"
    by (rule snapshot_inv_cong)
       (simp_all add: WillDestroyMainContainer willDestroyMainContainer_def clearTimeout_def
          cancel_def radar_destroy_def Let_def split: option.splits)
  with assms show ?thesis by simp
next
  case (RadarSendsAction act i)
  with assms show ?thesis
    by (auto simp add: snapshot_inv_def sendAction_def scheduleSendAction_def Let_def
        split: option.splits)
next
  case (TimerFires h)
  show ?thesis
  proof (cases "h \<in> set (timers s)")
    case False
    with TimerFires assms show ?thesis by simp
  next
    case True
    let ?r = "forEach_scheduled P H (items (args s)) (key s) (args s) (scheduledActions s)"
    have "\<forall>c \<in> set (fst ?r). args_lookup a (fst c) \<noteq> None"
    proof
      fix c
      assume "c \<in> set (fst ?r)"
      then have "c \<in> set (concat (map (dispatch P (items (args s)) (key s) (args s))
                   (scheduledActions s)))"
        using forEach_scheduled_subset by blast
      then have "fst c \<in> fst ` set (scheduledActions s)" by (rule fst_dispatch)
      with assms show "args_lookup a (fst c) \<noteq> None" by (auto simp add: snapshot_inv_def)
    qed
    with True TimerFires assms show ?thesis
      by (auto simp add: snapshot_inv_def sendActions_callback_def Let_def)
  qed
next
  case SchedulerFlush
  have "snapshot_inv a (step P H s ev) = snapshot_inv a s"
    using unchanged_foldl_run_job [of s "queue s"] calls_foldl_run_job [of s "queue s"]
    by (intro snapshot_inv_cong) (simp_all add: SchedulerFlush flush_def)
  with assms show ?thesis by simp
qed

lemma snapshot_inv_run: "snapshot_inv a s \<Longrightarrow> snapshot_inv a (run P H s es)"
  unfolding run_def by (induction es arbitrary: s) (simp_all add: snapshot_inv_step)

text \<open>
  Claim C9. When none of the four handlers is present at construction,
  \<^verbatim>\<open>_radar.sendAction\<close> is never installed and no action is ever scheduled or dispatched;
  and an action whose handler was absent at construction is never scheduled or dispatched,
  whatever the arguments become later.
\<close>

theorem edge_actions_fixed_at_construction:
  fixes P :: "('a, 'v) private_imports" and a :: "('a, 'h) IVerticalCollectionArgs"
  shows
  "(let s = run P H (debug_constructor P a) es in
      (arg_lastReached a = None \<and> arg_firstReached a = None
         \<and> arg_lastVisibleChanged a = None \<and> arg_firstVisibleChanged a = None \<longrightarrow>
         \<not> r_sendAction (radar s) \<and> hasAction s = None
         \<and> scheduledActions s = [] \<and> concat (calls s) = [])
      \<and> (\<forall>act. args_lookup a act = None \<longrightarrow>
            act \<notin> fst ` set (scheduledActions s) \<and> act \<notin> fst ` set (concat (calls s))))"
proof -
  define s where "s = run P H (debug_constructor P a) es"
  have inv: "snapshot_inv a s"
    unfolding s_def by (rule snapshot_inv_run) (rule snapshot_inv_constructor)
  have part2: "\<forall>act. args_lookup a act = None \<longrightarrow>
            act \<notin> fst ` set (scheduledActions s) \<and> act \<notin> fst ` set (concat (calls s))"
    using inv unfolding snapshot_inv_def by force
  have part1: "arg_lastReached a = None \<and> arg_firstReached a = None
         \<and> arg_lastVisibleChanged a = None \<and> arg_firstVisibleChanged a = None \<longrightarrow>
         \<not> r_sendAction (radar s) \<and> hasAction s = None
         \<and> scheduledActions s = [] \<and> concat (calls s) = []"
  proof
    assume "arg_lastReached a = None \<and> arg_firstReached a = None
         \<and> arg_lastVisibleChanged a = None \<and> arg_firstVisibleChanged a = None"
    then have none: "\<forall>act. args_lookup a act = None" by (simp add: args_lookup_all_None)
    with inv have h: "hasAction s = None" by (simp add: snapshot_inv_def)
    with inv have r: "\<not> r_sendAction (radar s)" by (simp add: snapshot_inv_def)
    from inv have "\<forall>c \<in> set (scheduledActions s). args_lookup a (fst c) \<noteq> None"
      and "\<forall>c \<in> set (concat (calls s)). args_lookup a (fst c) \<noteq> None"
      unfolding snapshot_inv_def by blast+
    with none have e: "\<forall>c \<in> set (scheduledActions s). False"
      "\<forall>c \<in> set (concat (calls s)). False"
      by blast+
    from e(1) have sa: "scheduledActions s = []" by (rule no_member_Nil)
    from e(2) have "concat (calls s) = []" by (rule no_member_Nil)
    with h r sa show "\<not> r_sendAction (radar s) \<and> hasAction s = None
         \<and> scheduledActions s = [] \<and> concat (calls s) = []" by simp
  qed
  from part1 part2 show ?thesis unfolding Let_def s_def [symmetric] by blast
qed

theorem edge_actions_fixed_at_construction_witness:
  "scheduledActions (run sample_imports never_throws (debug_constructor sample_imports no_args)
      [SetArgs sample_args, RadarSendsAction LastReached 2]) = []
   \<and> \<not> r_sendAction (radar (run sample_imports never_throws (debug_constructor sample_imports no_args)
      [SetArgs sample_args, RadarSendsAction LastReached 2]))
   \<and> FirstReached \<notin> fst ` set (scheduledActions
       (run sample_imports never_throws (debug_constructor sample_imports sample_args)
         [SetArgs (sample_args\<lparr>arg_firstReached := Some ''late''\<rparr>),
          RadarSendsAction FirstReached 0, RadarSendsAction LastReached 2]))"
proof -
  have n: "arg_lastReached no_args = None \<and> arg_firstReached no_args = None
         \<and> arg_lastVisibleChanged no_args = None \<and> arg_firstVisibleChanged no_args = None"
    by (simp add: no_args_def)
  have f: "args_lookup sample_args FirstReached = None"
    by (simp add: sample_args_def no_args_def)
  from edge_actions_fixed_at_construction
    [of sample_imports never_throws no_args "[SetArgs sample_args, RadarSendsAction LastReached 2]"] n
  have 1: "scheduledActions (run sample_imports never_throws (debug_constructor sample_imports no_args)
      [SetArgs sample_args, RadarSendsAction LastReached 2]) = []
   \<and> \<not> r_sendAction (radar (run sample_imports never_throws (debug_constructor sample_imports no_args)
      [SetArgs sample_args, RadarSendsAction LastReached 2]))"
    unfolding Let_def by blast
  from edge_actions_fixed_at_construction
    [of sample_imports never_throws sample_args
      "[SetArgs (sample_args\<lparr>arg_firstReached := Some ''late''\<rparr>),
          RadarSendsAction FirstReached 0, RadarSendsAction LastReached 2]"] f
  have 2: "FirstReached \<notin> fst ` set (scheduledActions
       (run sample_imports never_throws (debug_constructor sample_imports sample_args)
         [SetArgs (sample_args\<lparr>arg_firstReached := Some ''late''\<rparr>),
          RadarSendsAction FirstReached 0, RadarSendsAction LastReached 2]))"
    unfolding Let_def by blast
  from 1 2 show ?thesis by simp
qed

section \<open>The empty collection\<close>

text \<open>
  Claim C10. \<^verbatim>\<open>isEmpty\<close>, and so \<^verbatim>\<open>shouldYieldToInverse\<close>, is true exactly when
  \<^verbatim>\<open>items\<close> is present and has length 0; when \<^verbatim>\<open>items\<close> is \<^verbatim>\<open>null\<close> or \<^verbatim>\<open>undefined\<close>
  it is false, although \<^verbatim>\<open>virtualComponents\<close> gives the radar the empty array.
\<close>

theorem isEmpty_iff:
  "isEmpty a = (\<exists>xs. arg_items a = Some xs \<and> length xs = 0)
   \<and> shouldYieldToInverse a = isEmpty a
   \<and> (arg_items (args s) = None \<longrightarrow>
        \<not> isEmpty (args s) \<and> \<not> shouldYieldToInverse (args s)
        \<and> r_items (radar (virtualComponents s)) = [])"
  by (auto simp add: isEmpty_def shouldYieldToInverse_def items_def virtualComponents_def
      radar_scheduleUpdate_def Let_def split: option.splits)

theorem isEmpty_iff_witness:
  "isEmpty (no_args\<lparr>arg_items := Some []\<rparr>)
   \<and> \<not> isEmpty (no_args\<lparr>arg_items := Some [''a'']\<rparr>)
   \<and> \<not> isEmpty no_args
   \<and> \<not> shouldYieldToInverse no_args
   \<and> r_items (radar (virtualComponents
        (debug_constructor sample_imports no_args :: (string, string option, string) VerticalCollection))) = []"
proof -
  let ?s = "debug_constructor sample_imports no_args :: (string, string option, string) VerticalCollection"
  have a: "args ?s = no_args" by (simp add: debug_constructor_def constructor_def Let_def)
  have n: "arg_items no_args = None" by (simp add: no_args_def)
  from isEmpty_iff [of "no_args\<lparr>arg_items := Some []\<rparr>" ?s]
  have 1: "isEmpty (no_args\<lparr>arg_items := Some []\<rparr>)" by simp
  from isEmpty_iff [of "no_args\<lparr>arg_items := Some [''a'']\<rparr>" ?s]
  have 2: "\<not> isEmpty (no_args\<lparr>arg_items := Some [''a'']\<rparr>)" by simp
  from isEmpty_iff [of no_args ?s] a n
  have 3: "\<not> isEmpty no_args \<and> \<not> shouldYieldToInverse no_args
        \<and> r_items (radar (virtualComponents ?s)) = []" by simp
  from 1 2 3 show ?thesis by simp
qed

end
